theory Spec2Isabelle
  imports Main "HOL-Library.Word" "HOL-Library.Sublist"
begin

section \<open>Strings and characters\<close>

text \<open>
  Python strings are sequences of code points.  The model uses \<open>string\<close> and reads
  each \<open>char\<close> as one code point below 256 (Latin-1), so that \<open>length\<close> counts what
  Python's \<open>len\<close> counts on such text.

  \<open>isspace\<close> is the whitespace test shared by \<open>str.strip()\<close> and by the class
  \<open>\s\<close> of a Unicode pattern: tab to carriage return, the four separators
  0x1C..0x1F, the blank, NEL (0x85) and the no-break space (0xA0).
\<close>

definition isspace :: "char \<Rightarrow> bool" where
  "isspace c =
     (let n = (of_char c :: nat)
      in (9 \<le> n \<and> n \<le> 13) \<or> (28 \<le> n \<and> n \<le> 32) \<or> n = 133 \<or> n = 160)"

text \<open>
  Simple lower-casing, as the matcher applies it under \<open>re.IGNORECASE\<close>: the ASCII
  capitals and the Latin-1 capitals 0xC0..0xDE (the multiplication sign 0xD7 apart).
\<close>

definition py_lower :: "char \<Rightarrow> char" where
  "py_lower c =
     (let n = (of_char c :: nat)
      in if (65 \<le> n \<and> n \<le> 90) \<or> (192 \<le> n \<and> n \<le> 222 \<and> n \<noteq> 215)
         then char_of (n + 32) else c)"

definition newline :: char where
  "newline = CHR 0x0A"

definition backslash :: char where
  "backslash = CHR 0x5C"

text \<open>\<open>s.strip()\<close>, \<open>s.replace('\n', ' ')\<close>, \<open>s[a:b]\<close> for \<open>0 \<le> a\<close>,
  \<open>0 \<le> b\<close>, \<open>sep.join(xs)\<close> and \<open>needle in s\<close>.\<close>

definition strip :: "string \<Rightarrow> string" where
  "strip s = rev (dropWhile isspace (rev (dropWhile isspace s)))"

definition replace_newlines :: "string \<Rightarrow> string" where
  "replace_newlines s = map (\<lambda>c. if c = newline then CHR '' '' else c) s"

definition slice :: "string \<Rightarrow> nat \<Rightarrow> nat \<Rightarrow> string" where
  "slice s a b = drop a (take b s)"

fun join :: "string \<Rightarrow> string list \<Rightarrow> string" where
  "join sep [] = []"
| "join sep [x] = x"
| "join sep (x # y # ys) = x @ sep @ join sep (y # ys)"

fun contains :: "string \<Rightarrow> string \<Rightarrow> bool" where
  "contains needle [] = (needle = [])"
| "contains needle (c # cs) = (prefix needle (c # cs) \<or> contains needle cs)"

text \<open>\<open>re.sub(r'\s+', ' ', s)\<close>: every maximal run of whitespace becomes one blank.\<close>

function collapse_whitespace :: "string \<Rightarrow> string" where
  "collapse_whitespace [] = []"
| "collapse_whitespace (c # cs) =
     (if isspace c then CHR '' '' # collapse_whitespace (dropWhile isspace cs)
      else c # collapse_whitespace cs)"
  by pat_completeness auto
termination
  by (relation "measure length") (auto simp: le_imp_less_Suc length_dropWhile_le)

text \<open>\<open>str(n)\<close> for an integer.\<close>

definition digit_char :: "nat \<Rightarrow> char" where
  "digit_char d = ''0123456789'' ! (d mod 10)"

fun str_nat :: "nat \<Rightarrow> string" where
  "str_nat n =
     (if n < 10 then [digit_char n]
      else str_nat (n div 10) @ [digit_char (n mod 10)])"

declare str_nat.simps [simp del]

definition str_int :: "int \<Rightarrow> string" where
  "str_int i = (if i < 0 then CHR ''-'' # str_nat (nat (- i)) else str_nat (nat i))"

section \<open>Exceptions\<close>

text \<open>Every operation of the program that can raise returns \<open>exn + 'a\<close>, the
  exception on the left.\<close>

datatype exn = Timeout | ConnectionError | JSONDecodeError | TypeError | KeyError
  | IndexError | ReError | ParserError | OtherException string

section \<open>The pattern matcher\<close>

text \<open>
  The program builds every pattern as \<open>re.compile(re.escape(keyword), re.IGNORECASE)\<close>
  and runs \<open>finditer\<close> on it.  The model covers the fragment of the pattern language
  that such patterns can reach, and one construct beyond it (the dot), so that the
  effect of escaping is visible:
  \<^item> \<open>re_escape\<close> puts a backslash before each character of the library's table of
    special characters;
  \<^item> \<open>re_compile\<close> reads a pattern: a backslash followed by a character that is not an
    ASCII letter or digit stands for that character, a dot stands for any character
    but a newline, any other character outside \<open>()[]{}?*+|^$\<close> stands for itself.
    Everything else of the pattern language is outside the fragment and is reported
    as \<open>ReError\<close>; \<open>re_compile_escape\<close> below shows that no escaped keyword gets there;
  \<^item> matching is case-insensitive for literal characters.
\<close>

definition special_chars :: "char list" where
  "special_chars =
     ''()[]{}?*+-|^$.&~# '' @ [backslash, CHR 0x09, CHR 0x0A, CHR 0x0D, CHR 0x0B, CHR 0x0C]"

fun re_escape :: "string \<Rightarrow> string" where
  "re_escape [] = []"
| "re_escape (c # cs) =
     (if c \<in> set special_chars then backslash # c # re_escape cs else c # re_escape cs)"

datatype atom = Literal char | AnyChar

definition is_ascii_alnum :: "char \<Rightarrow> bool" where
  "is_ascii_alnum c =
     (let n = (of_char c :: nat)
      in (48 \<le> n \<and> n \<le> 57) \<or> (65 \<le> n \<and> n \<le> 90) \<or> (97 \<le> n \<and> n \<le> 122))"

definition pattern_operators :: "char list" where
  "pattern_operators = ''()[]{}?*+|^$''"

fun re_compile :: "string \<Rightarrow> exn + atom list" where
  "re_compile [] = Inr []"
| "re_compile (c # cs) =
     (if c = backslash then
        (case cs of
           [] \<Rightarrow> Inl ReError
         | d # ds \<Rightarrow>
             if is_ascii_alnum d then Inl ReError
             else map_sum id ((#) (Literal d)) (re_compile ds))
      else if c = CHR ''.'' then map_sum id ((#) AnyChar) (re_compile cs)
      else if c \<in> set pattern_operators then Inl ReError
      else map_sum id ((#) (Literal c)) (re_compile cs))"

fun atom_matches :: "atom \<Rightarrow> char \<Rightarrow> bool" where
  "atom_matches (Literal c) d = (py_lower d = py_lower c)"
| "atom_matches AnyChar d = (d \<noteq> newline)"

text \<open>Does the pattern match at the front of the text?\<close>

fun match_here :: "atom list \<Rightarrow> string \<Rightarrow> bool" where
  "match_here [] s = True"
| "match_here (a # as) [] = False"
| "match_here (a # as) (d # ds) = (atom_matches a d \<and> match_here as ds)"

text \<open>
  \<open>pattern.finditer(s)\<close>, as the list of \<open>(match.start(), match.end())\<close>: the scan goes
  left to right from position \<open>pos\<close>; after a match it resumes at the end of the match,
  and one position further when the match was empty.
\<close>

function finditer_from :: "atom list \<Rightarrow> string \<Rightarrow> nat \<Rightarrow> (nat \<times> nat) list" where
  "finditer_from p s pos =
     (if length s < pos then []
      else if match_here p (drop pos s)
           then (pos, pos + length p) #
                  finditer_from p s (if p = [] then pos + 1 else pos + length p)
           else finditer_from p s (pos + 1))"
  by pat_completeness auto
termination
proof (relation "measure (\<lambda>(p, s, pos). length s + 1 - pos)")
  show "wf (measure (\<lambda>(p, s, pos). length s + 1 - pos))" by simp
next
  fix p :: "atom list" and s :: string and pos :: nat
  assume "\<not> length s < pos" "match_here p (drop pos s)"
  then show "((p, s, if p = [] then pos + 1 else pos + length p), p, s, pos)
               \<in> measure (\<lambda>(p, s, pos). length s + 1 - pos)"
    by (cases p) auto
next
  fix p :: "atom list" and s :: string and pos :: nat
  assume "\<not> length s < pos" "\<not> match_here p (drop pos s)"
  then show "((p, s, pos + 1), p, s, pos) \<in> measure (\<lambda>(p, s, pos). length s + 1 - pos)"
    by auto
qed

declare finditer_from.simps [simp del]

definition finditer :: "atom list \<Rightarrow> string \<Rightarrow> (nat \<times> nat) list" where
  "finditer p s = finditer_from p s 0"

section \<open>The parsed document\<close>

text \<open>
  \<open>BeautifulSoup(html, 'lxml')\<close> is a parameter of the model (\<open>parse_html\<close> below); what
  it returns is a tree of tags and strings.  A string node carries its class, since
  \<open>get_text\<close> and the comment search tell the classes apart.
\<close>

datatype string_class = NavigableString | CData | Comment | Script | Stylesheet
  | TemplateString | Doctype | Declaration | ProcessingInstruction

datatype node = Tag string "(string \<times> string) list" "node list" | Str string_class string

text \<open>\<open>el.descendants\<close>: every node below \<open>el\<close>, in document order.\<close>

fun descendants :: "node \<Rightarrow> node list" where
  "descendants (Tag n a cs) = concat (map (\<lambda>c. c # descendants c) cs)"
| "descendants (Str k s) = []"

text \<open>\<open>el.decompose()\<close> for every tag below the root that satisfies \<open>P\<close>: the tag
  leaves the tree with everything below it.\<close>

fun decompose_all :: "(node \<Rightarrow> bool) \<Rightarrow> node \<Rightarrow> node" where
  "decompose_all P (Tag n a cs) = Tag n a (map (decompose_all P) (filter (\<lambda>c. \<not> P c) cs))"
| "decompose_all P (Str k s) = Str k s"

text \<open>The selector \<open>#wm-ipp-base, #wm-ipp, #donato\<close>.\<close>

fun is_wayback_toolbar :: "node \<Rightarrow> bool" where
  "is_wayback_toolbar (Tag n a cs) =
     (case map_of a ''id'' of
        None \<Rightarrow> False
      | Some i \<Rightarrow> i = ''wm-ipp-base'' \<or> i = ''wm-ipp'' \<or> i = ''donato'')"
| "is_wayback_toolbar (Str k s) = False"

fun is_tag_named :: "string \<Rightarrow> node \<Rightarrow> bool" where
  "is_tag_named name (Tag n a cs) = (n = name)"
| "is_tag_named name (Str k s) = False"

text \<open>A script tag whose \<open>src\<close> is set, not empty, and contains \<open>archive.org\<close>.\<close>

fun is_archive_script :: "node \<Rightarrow> bool" where
  "is_archive_script (Tag n a cs) =
     (n = ''script'' \<and>
      (case map_of a ''src'' of
         None \<Rightarrow> False
       | Some src \<Rightarrow> src \<noteq> [] \<and> contains ''archive.org'' src))"
| "is_archive_script (Str k s) = False"

definition find_all_script :: "node \<Rightarrow> node list" where
  "find_all_script soup = filter (is_tag_named ''script'') (descendants soup)"

definition find_body :: "node \<Rightarrow> node option" where
  "find_body soup = find (is_tag_named ''body'') (descendants soup)"

text \<open>\<open>el.get_text(separator=' ', strip=True)\<close>: the strings of class
  \<open>NavigableString\<close> or \<open>CData\<close> below \<open>el\<close>, each stripped, the empty ones dropped,
  joined by one blank.\<close>

fun text_strings :: "node list \<Rightarrow> string list" where
  "text_strings [] = []"
| "text_strings (Str k s # ns) =
     (if k = NavigableString \<or> k = CData then s # text_strings ns else text_strings ns)"
| "text_strings (Tag n a cs # ns) = text_strings ns"

definition get_text :: "node \<Rightarrow> string" where
  "get_text el =
     join '' '' (filter (\<lambda>s. s \<noteq> []) (map strip (text_strings (descendants el))))"

text \<open>\<open>el.string\<close>: \<open>None\<close> unless the tag has exactly one child; then that child if
  it is a string, and the child's own \<open>.string\<close> if it is a tag.\<close>

fun string_of :: "node \<Rightarrow> string option" where
  "string_of (Str k s) = Some s"
| "string_of (Tag n a [c]) = string_of c"
| "string_of (Tag n a cs) = None"

text \<open>\<open>soup.find_all(string=lambda text: isinstance(text, Comment))\<close>, each as
  \<open>str(comment)\<close>.  \<open>find_all\<close> passes over every element that is falsy, so an empty
  comment is not in the result.\<close>

fun comment_strings :: "node list \<Rightarrow> string list" where
  "comment_strings [] = []"
| "comment_strings (Str k s # ns) =
     (if k = Comment \<and> s \<noteq> [] then s # comment_strings ns else comment_strings ns)"
| "comment_strings (Tag n a cs # ns) = comment_strings ns"

definition find_all_comments :: "node \<Rightarrow> string list" where
  "find_all_comments soup = comment_strings (descendants soup)"

section \<open>The zone scanner\<close>

text \<open>
  A decoded JSON value, as \<open>response.json()\<close> returns it.  A float is its 64 bits.
  The timestamp and the original URL of a capture are cells of the index's rows, so
  they are JSON values; a match carries the timestamp it was given.
\<close>

datatype json = JNull | JBool bool | JInt int | JFloat "64 word" | JStr string
  | JArr "json list" | JObj "(string \<times> json) list"

datatype match_type = TEXT | JS | COMMENT

record Match =
  timestamp :: json
  archiveUrl :: string
  matchType :: match_type
  snippet :: string

text \<open>\<open>max(0, match.start() - 30)\<close> and \<open>min(len(text), match.end() + 30)\<close>.\<close>

definition context_start :: "nat \<Rightarrow> nat" where
  "context_start match_start = nat (max 0 (int match_start - 30))"

definition context_end :: "string \<Rightarrow> nat \<Rightarrow> nat" where
  "context_end s match_end = min (length s) (match_end + 30)"

text \<open>The three snippet expressions of \<open>extract_data\<close>, one per zone.\<close>

definition text_snippet :: "string \<Rightarrow> nat \<times> nat \<Rightarrow> string" where
  "text_snippet text_content m =
     (let start = context_start (fst m); end = context_end text_content (snd m)
      in ''...'' @ replace_newlines (slice text_content start end) @ ''...'')"

definition js_snippet :: "string \<Rightarrow> nat \<times> nat \<Rightarrow> string" where
  "js_snippet script_content m =
     (let start = context_start (fst m); end = context_end script_content (snd m)
      in ''...'' @ strip (replace_newlines (slice script_content start end)) @ ''...'')"

definition comment_snippet :: "string \<Rightarrow> nat \<times> nat \<Rightarrow> string" where
  "comment_snippet comment_text m =
     (let start = context_start (fst m); end = context_end comment_text (snd m)
      in ''...'' @ strip (slice comment_text start end) @ ''...'')"

definition make_match :: "json \<Rightarrow> string \<Rightarrow> match_type \<Rightarrow> string \<Rightarrow> Match" where
  "make_match ts url ty snip =
     \<lparr>timestamp = ts, archiveUrl = url, matchType = ty, snippet = snip\<rparr>"

text \<open>\<open>for match in pattern.finditer(s): matches.append({...})\<close>, the list \<open>matches\<close>
  passed through.\<close>

fun append_matches :: "(nat \<times> nat \<Rightarrow> Match) \<Rightarrow> (nat \<times> nat) list \<Rightarrow> Match list \<Rightarrow> Match list" where
  "append_matches mk [] matches = matches"
| "append_matches mk (m # ms) matches = append_matches mk ms (matches @ [mk m])"

text \<open>Step 2 of \<open>extract_data\<close>: the visible text of the body.\<close>

definition search_text ::
  "string \<Rightarrow> node \<Rightarrow> json \<Rightarrow> string \<Rightarrow> Match list \<Rightarrow> exn + Match list" where
  "search_text escaped_keyword soup ts url matches =
     (case find_body soup of
        None \<Rightarrow> Inr matches
      | Some body \<Rightarrow>
          (let text_content = collapse_whitespace (get_text body)
           in case re_compile escaped_keyword of
                Inl e \<Rightarrow> Inl e
              | Inr pattern \<Rightarrow>
                  Inr (append_matches (\<lambda>m. make_match ts url TEXT (text_snippet text_content m))
                         (finditer pattern text_content) matches)))"

text \<open>Step 3: every script tag whose \<open>.string\<close> is set and not empty.\<close>

fun search_scripts ::
  "string \<Rightarrow> node list \<Rightarrow> json \<Rightarrow> string \<Rightarrow> Match list \<Rightarrow> exn + Match list" where
  "search_scripts escaped_keyword [] ts url matches = Inr matches"
| "search_scripts escaped_keyword (script # rest) ts url matches =
     (case string_of script of
        None \<Rightarrow> search_scripts escaped_keyword rest ts url matches
      | Some script_content \<Rightarrow>
          if script_content \<noteq> [] then
            (case re_compile escaped_keyword of
               Inl e \<Rightarrow> Inl e
             | Inr pattern \<Rightarrow>
                 search_scripts escaped_keyword rest ts url
                   (append_matches (\<lambda>m. make_match ts url JS (js_snippet script_content m))
                      (finditer pattern script_content) matches))
          else search_scripts escaped_keyword rest ts url matches)"

text \<open>Step 4: every comment but the archive's own footer.\<close>

fun search_comments ::
  "string \<Rightarrow> string list \<Rightarrow> json \<Rightarrow> string \<Rightarrow> Match list \<Rightarrow> exn + Match list" where
  "search_comments escaped_keyword [] ts url matches = Inr matches"
| "search_comments escaped_keyword (comment_text # rest) ts url matches =
     (if contains ''FILE ARCHIVED ON'' comment_text
      then search_comments escaped_keyword rest ts url matches
      else (case re_compile escaped_keyword of
              Inl e \<Rightarrow> Inl e
            | Inr pattern \<Rightarrow>
                search_comments escaped_keyword rest ts url
                  (append_matches (\<lambda>m. make_match ts url COMMENT (comment_snippet comment_text m))
                     (finditer pattern comment_text) matches)))"

text \<open>The document after step 1, the removal of the archive's toolbar and scripts.\<close>

definition cleanup :: "node \<Rightarrow> node" where
  "cleanup soup = decompose_all is_archive_script (decompose_all is_wayback_toolbar soup)"

text \<open>
  \<open>extract_data(html, keyword, timestamp, archive_url)\<close>.  The parser is the first
  argument; an exception of the parser or of the matcher leaves the function.
\<close>

definition extract_data ::
  "(string \<Rightarrow> exn + node) \<Rightarrow> string \<Rightarrow> string \<Rightarrow> json \<Rightarrow> string \<Rightarrow> exn + Match list" where
  "extract_data parse html keyword ts archive_url =
     (case parse html of
        Inl e \<Rightarrow> Inl e
      | Inr parsed \<Rightarrow>
          (let soup = cleanup parsed;
               escaped_keyword = re_escape keyword
           in case search_text escaped_keyword soup ts archive_url [] of
                Inl e \<Rightarrow> Inl e
              | Inr matches1 \<Rightarrow>
                  (case search_scripts escaped_keyword (find_all_script soup) ts archive_url matches1 of
                     Inl e \<Rightarrow> Inl e
                   | Inr matches2 \<Rightarrow>
                       search_comments escaped_keyword (find_all_comments soup) ts archive_url
                         matches2)))"

section \<open>The outside world\<close>

text \<open>
  What the program reads from outside is a parameter of the model:
  \<^item> \<open>cdx_get params\<close>: \<open>requests.get(CDX_API, params=params, ...)\<close>, a response or an
    exception (timeout, connection error);
  \<^item> \<open>http_get i url\<close>: \<open>requests.get(archive_url, ...)\<close> in iteration \<open>i\<close> of the scan
    loop (the same URL may answer differently from one call to the next);
  \<^item> \<open>parse_html\<close>: \<open>BeautifulSoup(html, 'lxml')\<close>;
  \<^item> \<open>py_repr\<close>: how an f-string prints a JSON value that is not a string;
  \<^item> \<open>py_int\<close>: \<open>int(s)\<close>, \<open>None\<close> for \<open>ValueError\<close>.
  A response carries its status, its text and what \<open>response.json()\<close> returns or
  raises.
\<close>

record response =
  status_code :: int
  resp_text :: string
  resp_json :: "exn + json"

record env =
  cdx_get :: "(string \<times> string) list \<Rightarrow> exn + response"
  http_get :: "nat \<Rightarrow> string \<Rightarrow> exn + response"
  parse_html :: "string \<Rightarrow> exn + node"
  py_repr :: "json \<Rightarrow> string"
  py_int :: "string \<Rightarrow> int option"

text \<open>\<open>f"{v}"\<close>: a string prints as itself.\<close>

fun format_value :: "env \<Rightarrow> json \<Rightarrow> string" where
  "format_value env (JStr s) = s"
| "format_value env v = py_repr env v"

section \<open>The snapshot directory client\<close>

text \<open>\<open>len(row)\<close>, \<open>row[i]\<close> on a decoded JSON value.  The keys of a decoded object are
  strings, so an integer subscript of an object is a \<open>KeyError\<close>.\<close>

fun py_len :: "json \<Rightarrow> exn + nat" where
  "py_len (JArr xs) = Inr (length xs)"
| "py_len (JStr s) = Inr (length s)"
| "py_len (JObj kvs) = Inr (length (remdups (map fst kvs)))"
| "py_len v = Inl TypeError"

fun py_getitem :: "json \<Rightarrow> nat \<Rightarrow> exn + json" where
  "py_getitem (JArr xs) i = (if i < length xs then Inr (xs ! i) else Inl IndexError)"
| "py_getitem (JStr s) i = (if i < length s then Inr (JStr [s ! i]) else Inl IndexError)"
| "py_getitem (JObj kvs) i = Inl KeyError"
| "py_getitem v i = Inl TypeError"

record snapshot =
  snap_timestamp :: json
  snap_original :: json

text \<open>The loop over \<open>data[1:]\<close>, the list \<open>snapshots\<close> passed through.\<close>

fun collect_rows :: "json list \<Rightarrow> snapshot list \<Rightarrow> exn + snapshot list" where
  "collect_rows [] snapshots = Inr snapshots"
| "collect_rows (row # rows) snapshots =
     (case py_len row of
        Inl e \<Rightarrow> Inl e
      | Inr n \<Rightarrow>
          if n \<ge> 2 then
            (case py_getitem row 0 of
               Inl e \<Rightarrow> Inl e
             | Inr r0 \<Rightarrow>
                 (case py_getitem row 1 of
                    Inl e \<Rightarrow> Inl e
                  | Inr r1 \<Rightarrow>
                      collect_rows rows
                        (snapshots @ [\<lparr>snap_timestamp = r0, snap_original = r1\<rparr>])))
          else collect_rows rows snapshots)"

definition cdx_params :: "string \<Rightarrow> string option \<Rightarrow> int \<Rightarrow> (string \<times> string) list" where
  "cdx_params domain year limit =
     [(''url'', domain), (''output'', ''json''), (''fl'', ''timestamp,original''),
      (''filter'', ''statuscode:200''), (''limit'', str_int limit)] @
     (case year of
        None \<Rightarrow> []
      | Some y \<Rightarrow> if y \<noteq> [] then [(''from'', y @ ''0101''), (''to'', y @ ''1231'')] else [])"

text \<open>\<open>fetch_snapshots(domain, year, limit)\<close>: every exception inside the \<open>try\<close> ends in
  \<open>return []\<close>.\<close>

definition fetch_snapshots :: "env \<Rightarrow> string \<Rightarrow> string option \<Rightarrow> int \<Rightarrow> snapshot list" where
  "fetch_snapshots env domain year limit =
     (case cdx_get env (cdx_params domain year limit) of
        Inl e \<Rightarrow> []
      | Inr response \<Rightarrow>
          if status_code response \<noteq> 200 then []
          else
            (case resp_json response of
               Inl e \<Rightarrow> []
             | Inr data \<Rightarrow>
                 (case data of
                    JArr rows \<Rightarrow>
                      if length rows \<le> 1 then []
                      else (case collect_rows (tl rows) [] of
                              Inl e \<Rightarrow> []
                            | Inr snapshots \<Rightarrow> snapshots)
                  | _ \<Rightarrow> [])))"

section \<open>The scan orchestrator\<close>

text \<open>
  An event is the dictionary handed to \<open>send_sse_event\<close>; the stream of a scan is the
  list of the events the generator yields, in the order it yields them.  A progress
  event carries its message and, when present, \<open>currentSnapshot\<close> and
  \<open>totalSnapshots\<close>.
\<close>

datatype event =
    Progress string "(nat \<times> nat) option"
  | MatchEvent Match
  | Complete string
  | ErrorEvent string

record scan_state =
  found_any :: bool
  emitted :: "event list"

definition yield :: "event \<Rightarrow> scan_state \<Rightarrow> scan_state" where
  "yield ev st = st\<lparr>emitted := emitted st @ [ev]\<rparr>"

text \<open>\<open>for match in matches: yield send_sse_event({"type": "match", ...})\<close>.\<close>

fun yield_matches :: "Match list \<Rightarrow> scan_state \<Rightarrow> scan_state" where
  "yield_matches [] st = st"
| "yield_matches (m # ms) st = yield_matches ms (yield (MatchEvent m) st)"

definition archive_url_of :: "env \<Rightarrow> snapshot \<Rightarrow> string" where
  "archive_url_of env snap =
     ''https://web.archive.org/web/'' @ format_value env (snap_timestamp snap) @ ''/'' @
       format_value env (snap_original snap)"

definition scanning_event :: "env \<Rightarrow> nat \<Rightarrow> nat \<Rightarrow> snapshot \<Rightarrow> event" where
  "scanning_event env total_snapshots i snap =
     Progress (''Scanning snapshot: '' @ format_value env (snap_timestamp snap) @ ''...'')
       (Some (i + 1, total_snapshots))"

text \<open>
  The loop \<open>for i, snapshot in enumerate(snapshots)\<close>.  The politeness delay has no
  effect on the stream and is left out.  Every exception inside the inner \<open>try\<close> (the
  fetch, the parser, the matcher) ends in \<open>continue\<close>.
\<close>

fun scan_loop ::
  "env \<Rightarrow> string \<Rightarrow> nat \<Rightarrow> (nat \<times> snapshot) list \<Rightarrow> scan_state \<Rightarrow> scan_state" where
  "scan_loop env keyword total_snapshots [] st = st"
| "scan_loop env keyword total_snapshots ((i, snap) # rest) st =
     (let ts = snap_timestamp snap;
          archive_url = archive_url_of env snap;
          st1 = yield (scanning_event env total_snapshots i snap) st
      in case http_get env i archive_url of
           Inl e \<Rightarrow> scan_loop env keyword total_snapshots rest st1
         | Inr response \<Rightarrow>
             if status_code response = 200 then
               (case extract_data (parse_html env) (resp_text response) keyword ts archive_url of
                  Inl e \<Rightarrow> scan_loop env keyword total_snapshots rest st1
                | Inr matches \<Rightarrow>
                    if matches \<noteq> [] then
                      scan_loop env keyword total_snapshots rest
                        (yield_matches matches (st1\<lparr>found_any := True\<rparr>))
                    else scan_loop env keyword total_snapshots rest st1)
             else scan_loop env keyword total_snapshots rest st1)"

definition contacting_event :: "string \<Rightarrow> event" where
  "contacting_event domain =
     Progress (''Contacting Wayback Machine for: '' @ domain @ ''...'') None"

definition analyzing_event :: "nat \<Rightarrow> string \<Rightarrow> event" where
  "analyzing_event total_snapshots keyword =
     Progress (''Analyzing '' @ str_nat total_snapshots @ '' snapshots for '' @ [CHR 0x27] @ keyword @
               [CHR 0x27] @ ''...'')
       (Some (0, total_snapshots))"

text \<open>
  The generator \<open>generate\<close> of \<open>scan\<close>, as the list of everything it yields to a
  consumer that reads the stream to its end.  Nothing outside the inner \<open>try\<close> raises
  in this model (the directory client catches its own exceptions, and the fetch, the
  parser and the matcher are called inside the inner \<open>try\<close>), so the outer handler,
  the only place that yields an \<open>error\<close> event, is not reached.
\<close>

definition generate :: "env \<Rightarrow> string \<Rightarrow> string option \<Rightarrow> string \<Rightarrow> int \<Rightarrow> event list" where
  "generate env domain year keyword limit =
     (let st0 = yield (contacting_event domain) \<lparr>found_any = False, emitted = []\<rparr>;
          snapshots = fetch_snapshots env domain year limit
      in if snapshots = [] then
           emitted (yield (Complete ''No snapshots found for this criteria.'') st0)
         else
           (let st1 = yield (analyzing_event (length snapshots) keyword) st0;
                st2 = scan_loop env keyword (length snapshots) (enumerate 0 snapshots)
                        (st1\<lparr>found_any := False\<rparr>)
            in if found_any st2 then emitted (yield (Complete ''Scan complete.'') st2)
               else emitted (yield (Complete ''Scan finished. No matches found.'') st2)))"

text \<open>
  The route \<open>/api/scan\<close>: a request without a domain or without a keyword (absent or
  empty) is answered 400, before any stream starts; \<open>limit\<close> falls back to 100.
\<close>

datatype scan_response = BadRequest string | EventStream "event list"

definition parse_limit :: "env \<Rightarrow> string option \<Rightarrow> int" where
  "parse_limit env limit =
     (case py_int env (case limit of None \<Rightarrow> ''100'' | Some l \<Rightarrow> l) of
        None \<Rightarrow> 100
      | Some n \<Rightarrow> n)"

definition scan ::
  "env \<Rightarrow> string option \<Rightarrow> string option \<Rightarrow> string option \<Rightarrow> string option \<Rightarrow> scan_response" where
  "scan env domain year keyword limit =
     (case (domain, keyword) of
        (Some d, Some k) \<Rightarrow>
          if d = [] \<or> k = [] then
            BadRequest ''Missing required parameters: domain and keyword''
          else EventStream (generate env d year k (parse_limit env limit))
      | _ \<Rightarrow> BadRequest ''Missing required parameters: domain and keyword'')"

section \<open>Notions used in the statements\<close>

text \<open>
  The occurrences of a keyword in one haystack: what \<open>finditer\<close> returns for the
  pattern of the keyword's literal characters (the pattern that \<open>re_compile\<close> builds
  from the escaped keyword, see \<open>re_compile_escape\<close>).
\<close>

definition occurrences :: "string \<Rightarrow> string \<Rightarrow> (nat \<times> nat) list" where
  "occurrences keyword haystack = finditer (map Literal keyword) haystack"

text \<open>The keyword stands at offset \<open>i\<close> of the haystack, as literal text and up to
  letter case.  Nothing of the pattern matcher enters this definition.\<close>

definition literal_at :: "string \<Rightarrow> string \<Rightarrow> nat \<Rightarrow> bool" where
  "literal_at keyword haystack i =
     (i + length keyword \<le> length haystack \<and>
      map py_lower (slice haystack i (i + length keyword)) = map py_lower keyword)"

text \<open>The matches of each zone, written as maps over the occurrences.  The lemmas
  \<open>search_text_eq\<close>, \<open>search_scripts_eq\<close> and \<open>search_comments_eq\<close> show that the loops
  of \<open>extract_data\<close> compute them.\<close>

definition text_zone :: "string \<Rightarrow> node \<Rightarrow> json \<Rightarrow> string \<Rightarrow> Match list" where
  "text_zone keyword soup ts url =
     (case find_body soup of
        None \<Rightarrow> []
      | Some body \<Rightarrow>
          map (\<lambda>m. make_match ts url TEXT (text_snippet (collapse_whitespace (get_text body)) m))
            (occurrences keyword (collapse_whitespace (get_text body))))"

definition script_matches :: "string \<Rightarrow> json \<Rightarrow> string \<Rightarrow> node \<Rightarrow> Match list" where
  "script_matches keyword ts url script =
     (case string_of script of
        None \<Rightarrow> []
      | Some script_content \<Rightarrow>
          if script_content \<noteq> []
          then map (\<lambda>m. make_match ts url JS (js_snippet script_content m))
                 (occurrences keyword script_content)
          else [])"

definition js_zone :: "string \<Rightarrow> node \<Rightarrow> json \<Rightarrow> string \<Rightarrow> Match list" where
  "js_zone keyword soup ts url =
     concat (map (script_matches keyword ts url) (find_all_script soup))"

definition comment_matches :: "string \<Rightarrow> json \<Rightarrow> string \<Rightarrow> string \<Rightarrow> Match list" where
  "comment_matches keyword ts url comment_text =
     (if contains ''FILE ARCHIVED ON'' comment_text then []
      else map (\<lambda>m. make_match ts url COMMENT (comment_snippet comment_text m))
             (occurrences keyword comment_text))"

definition comment_zone :: "string \<Rightarrow> node \<Rightarrow> json \<Rightarrow> string \<Rightarrow> Match list" where
  "comment_zone keyword soup ts url =
     concat (map (comment_matches keyword ts url) (find_all_comments soup))"

text \<open>A text in which every whitespace character is a blank and no two whitespace
  characters are adjacent.\<close>

fun single_spaced :: "string \<Rightarrow> bool" where
  "single_spaced [] = True"
| "single_spaced [c] = (if isspace c then c = CHR '' '' else True)"
| "single_spaced (c # d # ds) =
     ((if isspace c then c = CHR '' '' \<and> \<not> isspace d else True) \<and> single_spaced (d # ds))"

text \<open>
  The snippet as the specification words it, for comparison with the three snippet
  expressions of the code: the slice from \<open>max(0, start - 30)\<close> to
  \<open>min(len, end + 30)\<close>, whitespace runs collapsed, stripped, between two ellipses.
\<close>

definition spec_snippet :: "string \<Rightarrow> nat \<times> nat \<Rightarrow> string" where
  "spec_snippet haystack m =
     ''...'' @
     strip (collapse_whitespace
       (slice haystack (context_start (fst m)) (context_end haystack (snd m)))) @
     ''...''"

text \<open>What the code does to the slice, zone by zone.\<close>

fun zone_context :: "match_type \<Rightarrow> string \<Rightarrow> string" where
  "zone_context TEXT s = replace_newlines s"
| "zone_context JS s = strip (replace_newlines s)"
| "zone_context COMMENT s = strip s"

text \<open>The haystacks of a cleaned document, zone by zone.\<close>

fun zone_haystacks :: "match_type \<Rightarrow> node \<Rightarrow> string list" where
  "zone_haystacks TEXT soup =
     (case find_body soup of
        None \<Rightarrow> []
      | Some body \<Rightarrow> [collapse_whitespace (get_text body)])"
| "zone_haystacks JS soup =
     filter (\<lambda>s. s \<noteq> []) (List.map_filter string_of (find_all_script soup))"
| "zone_haystacks COMMENT soup =
     filter (\<lambda>c. \<not> contains ''FILE ARCHIVED ON'' c) (find_all_comments soup)"

text \<open>The matches of a zone in terms of its haystacks: for each haystack and each
  occurrence, the slice around the occurrence, treated as the zone treats it, between
  two ellipses.\<close>

definition zone_matches :: "match_type \<Rightarrow> string \<Rightarrow> node \<Rightarrow> json \<Rightarrow> string \<Rightarrow> Match list" where
  "zone_matches ty keyword soup ts url =
     concat (map (\<lambda>haystack.
                map (\<lambda>m. make_match ts url ty
                            (''...'' @
                             zone_context ty
                               (slice haystack (context_start (fst m)) (context_end haystack (snd m))) @
                             ''...''))
                  (occurrences keyword haystack))
       (zone_haystacks ty soup))"

text \<open>The matches of one capture: the result of \<open>extract_data\<close> when the fetch answers
  200 and nothing raises, no match otherwise.  \<open>capture_events\<close> is what one iteration
  of the loop yields.\<close>

definition capture_matches :: "env \<Rightarrow> string \<Rightarrow> nat \<times> snapshot \<Rightarrow> Match list" where
  "capture_matches env keyword c =
     (case http_get env (fst c) (archive_url_of env (snd c)) of
        Inl e \<Rightarrow> []
      | Inr response \<Rightarrow>
          if status_code response = 200 then
            (case extract_data (parse_html env) (resp_text response) keyword
                    (snap_timestamp (snd c)) (archive_url_of env (snd c)) of
               Inl e \<Rightarrow> []
             | Inr matches \<Rightarrow> matches)
          else [])"

definition capture_events :: "env \<Rightarrow> string \<Rightarrow> nat \<Rightarrow> nat \<times> snapshot \<Rightarrow> event list" where
  "capture_events env keyword total_snapshots c =
     scanning_event env total_snapshots (fst c) (snd c) #
       map MatchEvent (capture_matches env keyword c)"

text \<open>A capture whose fetch fails: the request raises, the status is not 200, or
  the processing of the page raises.\<close>

definition fetch_failed :: "env \<Rightarrow> string \<Rightarrow> nat \<times> snapshot \<Rightarrow> bool" where
  "fetch_failed env keyword c =
     (case http_get env (fst c) (archive_url_of env (snd c)) of
        Inl e \<Rightarrow> True
      | Inr response \<Rightarrow>
          if status_code response = 200 then
            (case extract_data (parse_html env) (resp_text response) keyword
                    (snap_timestamp (snd c)) (archive_url_of env (snd c)) of
               Inl e \<Rightarrow> True
             | Inr matches \<Rightarrow> False)
          else True)"


fun is_terminal :: "event \<Rightarrow> bool" where
  "is_terminal (Complete msg) = True"
| "is_terminal (ErrorEvent err) = True"
| "is_terminal ev = False"

fun is_match_event :: "event \<Rightarrow> bool" where
  "is_match_event (MatchEvent m) = True"
| "is_match_event ev = False"


section \<open>Example documents and environments\<close>

text \<open>Concrete inputs, on which the theorems below are instantiated.\<close>

definition page_three_zones :: node where
  "page_three_zones =
     Tag ''[document]'' []
       [Str Comment '' login note '',
        Tag ''html'' []
          [Tag ''head'' [] [Tag ''script'' [] [Str Script ''doLogin();'']],
           Tag ''body'' [] [Str NavigableString ''Please login here'']]]"

definition page_split_script :: node where
  "page_split_script =
     Tag ''[document]'' []
       [Tag ''html'' []
          [Tag ''head'' []
             [Tag ''script'' [] [Str Script ''log'', Str Script ''in''],
              Tag ''script'' [] []],
           Tag ''body'' [] []]]"

text \<open>A script with a run of two blanks and a body text whose occurrence of \<open>b\<close> lies
  31 characters in, so that the slice starts on the blank; a script that ends with a
  blank; a body with the text \<open>ab\<close>.\<close>

definition page_spaced_script :: node where
  "page_spaced_script =
     Tag ''[document]'' []
       [Tag ''html'' []
          [Tag ''head'' [] [Tag ''script'' [] [Str Script ''a  b'']],
           Tag ''body'' [] [Str NavigableString ''x yyyyyyyyyyyyyyyyyyyyyyyyyyyyyb'']]]"

definition page_edge_script :: node where
  "page_edge_script =
     Tag ''[document]'' []
       [Tag ''html'' []
          [Tag ''head'' [] [Tag ''script'' [] [Str Script ''x '']],
           Tag ''body'' [] []]]"

definition page_ab :: node where
  "page_ab =
     Tag ''[document]'' [] [Tag ''html'' [] [Tag ''body'' [] [Str NavigableString ''ab'']]]"

text \<open>A page with \<open>axb\<close> and \<open>A.B\<close> in its text, \<open>axb\<close> in a script and \<open>a.b\<close> in a
  comment; a script of two lines.\<close>

definition page_dot :: node where
  "page_dot =
     Tag ''[document]'' []
       [Str Comment ''a.b'',
        Tag ''html'' []
          [Tag ''head'' [] [Tag ''script'' [] [Str Script ''axb'']],
           Tag ''body'' [] [Str NavigableString ''axb A.B'']]]"

definition two_lines :: string where
  "two_lines = ''x Login'' @ [newline] @ ''LOGIN''"

definition page_two_lines :: node where
  "page_two_lines =
     Tag ''[document]'' []
       [Tag ''html'' []
          [Tag ''head'' [] [Tag ''script'' [] [Str Script two_lines]],
           Tag ''body'' [] []]]"

definition row_header :: json where
  "row_header = JArr [JStr ''timestamp'', JStr ''original'']"

definition ok_response :: "string \<Rightarrow> json \<Rightarrow> response" where
  "ok_response body data = \<lparr>status_code = 200, resp_text = body, resp_json = Inr data\<rparr>"

definition html_response :: "int \<Rightarrow> string \<Rightarrow> response" where
  "html_response status body =
     \<lparr>status_code = status, resp_text = body, resp_json = Inl JSONDecodeError\<rparr>"

text \<open>An index that times out, one that answers with its header row only, and one
  that lists two captures; then captures that all fail, and a first capture that
  answers while the second times out.\<close>

definition base_env :: env where
  "base_env =
     \<lparr>cdx_get = (\<lambda>params. Inl Timeout),
      http_get = (\<lambda>i url. Inl Timeout),
      parse_html = (\<lambda>html. Inr page_three_zones),
      py_repr = (\<lambda>v. ''?''),
      py_int = (\<lambda>s. None)\<rparr>"


definition two_captures :: json where
  "two_captures =
     JArr [row_header,
           JArr [JStr ''20200101000000'', JStr ''example.com''],
           JArr [JStr ''20210101000000'', JStr ''example.com'']]"

definition failing_env :: env where
  "failing_env =
     base_env\<lparr>cdx_get := (\<lambda>params. Inr (ok_response [] two_captures)),
              http_get := (\<lambda>i url. if i = 0 then Inl Timeout else Inr (html_response 404 ''gone''))\<rparr>"

definition mixed_env :: env where
  "mixed_env =
     base_env\<lparr>cdx_get := (\<lambda>params. Inr (ok_response [] two_captures)),
              http_get := (\<lambda>i url. if i = 0 then Inr (html_response 200 ''<html>'') else Inl Timeout)\<rparr>"

section \<open>The pattern matcher: escaping, soundness, order\<close>

lemma special_not_alnum: "c \<in> set special_chars \<Longrightarrow> \<not> is_ascii_alnum c"
  by (auto simp: special_chars_def is_ascii_alnum_def backslash_def)

lemma operators_special: "c \<in> set pattern_operators \<Longrightarrow> c \<in> set special_chars"
  by (auto simp: special_chars_def pattern_operators_def)

lemma backslash_special: "backslash \<in> set special_chars"
  by (simp add: special_chars_def)

lemma dot_special: "CHR ''.'' \<in> set special_chars"
  by (simp add: special_chars_def)

lemma re_compile_escape: "re_compile (re_escape kw) = Inr (map Literal kw)"
proof (induction kw)
  case Nil
  show ?case by simp
next
  case (Cons c cs)
  show ?case
  proof (cases "c \<in> set special_chars")
    case True
    then show ?thesis using Cons special_not_alnum [OF True] by simp
  next
    case False
    then have "c \<noteq> backslash" "c \<noteq> CHR ''.''" "c \<notin> set pattern_operators"
      using backslash_special dot_special operators_special by auto
    then show ?thesis using False Cons by simp
  qed
qed

lemma match_here_literal:
  "match_here (map Literal kw) s \<longleftrightarrow>
     length kw \<le> length s \<and> map py_lower (take (length kw) s) = map py_lower kw"
proof (induction kw arbitrary: s)
  case Nil
  show ?case by simp
next
  case (Cons c cs)
  show ?case by (cases s) (auto simp: Cons)
qed

lemma finditer_from_sound:
  "m \<in> set (finditer_from p s pos) \<Longrightarrow>
     pos \<le> fst m \<and> fst m \<le> length s \<and> snd m = fst m + length p \<and> match_here p (drop (fst m) s)"
proof (induction p s pos rule: finditer_from.induct)
  case (1 p s pos)
  show ?case
  proof (cases "length s < pos")
    case True
    with "1.prems" show ?thesis by (simp add: finditer_from.simps)
  next
    case False
    note inrange = this
    show ?thesis
    proof (cases "match_here p (drop pos s)")
      case True
      from "1.prems" inrange True
      have "m = (pos, pos + length p) \<or>
            m \<in> set (finditer_from p s (if p = [] then pos + 1 else pos + length p))"
        by (subst (asm) finditer_from.simps) simp
      then show ?thesis
      proof
        assume "m = (pos, pos + length p)"
        with inrange True show ?thesis by simp
      next
        assume "m \<in> set (finditer_from p s (if p = [] then pos + 1 else pos + length p))"
        from "1.IH"(1) [OF inrange True this] show ?thesis by (auto split: if_splits)
      qed
    next
      case False
      from "1.prems" inrange False have "m \<in> set (finditer_from p s (pos + 1))"
        by (subst (asm) finditer_from.simps) simp
      from "1.IH"(2) [OF inrange False this] show ?thesis by auto
    qed
  qed
qed

lemma finditer_from_sorted:
  "p \<noteq> [] \<Longrightarrow> sorted_wrt (\<lambda>m m'. snd m \<le> fst m') (finditer_from p s pos)"
proof (induction p s pos rule: finditer_from.induct)
  case (1 p s pos)
  show ?case
  proof (cases "length s < pos")
    case True
    then show ?thesis by (simp add: finditer_from.simps)
  next
    case False
    note inrange = this
    show ?thesis
    proof (cases "match_here p (drop pos s)")
      case True
      have rest: "sorted_wrt (\<lambda>m m'. snd m \<le> fst m') (finditer_from p s (pos + length p))"
        using "1.IH"(1) [OF inrange True] "1.prems" by simp
      have "\<forall>m' \<in> set (finditer_from p s (pos + length p)). pos + length p \<le> fst m'"
        using finditer_from_sound by blast
      with rest inrange True "1.prems" show ?thesis
        by (subst finditer_from.simps) simp
    next
      case False
      with "1.IH"(2) [OF inrange False] "1.prems" inrange show ?thesis
        by (subst finditer_from.simps) simp
    qed
  qed
qed

lemma finditer_from_empty_pattern:
  "pos \<le> length s + 1 \<Longrightarrow> finditer_from [] s pos = map (\<lambda>i. (i, i)) [pos..<length s + 1]"
proof (induction "length s + 1 - pos" arbitrary: pos)
  case 0
  then have "length s < pos" by simp
  then show ?case by (simp add: finditer_from.simps)
next
  case (Suc n)
  then have inrange: "\<not> length s < pos" by simp
  from Suc have "n = length s + 1 - (pos + 1)" by simp
  from Suc.hyps(1) [OF this] inrange
  have "finditer_from [] s (pos + 1) = map (\<lambda>i. (i, i)) [pos + 1..<length s + 1]" by simp
  moreover have "[pos..<length s + 1] = pos # [pos + 1..<length s + 1]"
    using inrange by (simp add: upt_conv_Cons)
  ultimately show ?case using inrange by (subst finditer_from.simps) simp
qed

lemma finditer_empty_haystack: "p \<noteq> [] \<Longrightarrow> finditer p [] = []"
  by (cases p) (simp_all add: finditer_def finditer_from.simps)

lemma finditer_from_covers:
  "pos \<le> i \<Longrightarrow> i \<le> length s \<Longrightarrow> match_here p (drop i s) \<Longrightarrow>
     \<exists>m \<in> set (finditer_from p s pos). fst m \<le> i \<and> (i < snd m \<or> i = fst m)"
proof (induction p s pos rule: finditer_from.induct)
  case (1 p s pos)
  from "1.prems" have inrange: "\<not> length s < pos" by simp
  show ?case
  proof (cases "match_here p (drop pos s)")
    case True
    let ?next = "if p = [] then pos + 1 else pos + length p"
    have unfold: "finditer_from p s pos = (pos, pos + length p) # finditer_from p s ?next"
      using inrange True by (subst finditer_from.simps) simp
    show ?thesis
    proof (cases "i < pos + length p \<or> i = pos")
      case True
      with "1.prems"(1) show ?thesis unfolding unfold by auto
    next
      case False
      with "1.prems"(1) have "?next \<le> i" by auto
      from "1.IH"(1) [OF inrange True this "1.prems"(2,3)] show ?thesis
        unfolding unfold by auto
    qed
  next
    case False
    with "1.prems" have "pos \<noteq> i" by auto
    with "1.prems" have "pos + 1 \<le> i" by simp
    from "1.IH"(2) [OF inrange False this "1.prems"(2,3)] inrange False show ?thesis
      by (subst finditer_from.simps) simp
  qed
qed

section \<open>Strings: containment, whitespace, slices\<close>

lemma contains_append: "contains needle (pre @ needle @ post)"
proof (induction pre)
  case Nil
  show ?case
  proof (cases "needle @ post")
    case Nil
    then show ?thesis by simp
  next
    case (Cons a list)
    have "prefix needle (needle @ post)" by simp
    with Cons show ?thesis by simp
  qed
next
  case (Cons a pre)
  then show ?case by simp
qed

lemma contains_sublist: "contains needle s = sublist needle s"
proof (induction s)
  case Nil
  show ?case by simp
next
  case (Cons c cs)
  show ?case by (simp add: Cons sublist_Cons_right)
qed

lemma collapse_set:
  "c \<in> set (collapse_whitespace s) \<Longrightarrow> c = CHR '' '' \<or> (c \<in> set s \<and> \<not> isspace c)"
proof (induction s rule: collapse_whitespace.induct)
  case 1
  then show ?case by simp
next
  case (2 d ds)
  show ?case
  proof (cases "isspace d")
    case True
    with 2 show ?thesis by (auto dest: set_dropWhileD)
  next
    case False
    with 2 show ?thesis by auto
  qed
qed

lemma isspace_newline: "isspace newline"
  by (simp add: isspace_def newline_def)

lemma collapse_no_newline: "newline \<notin> set (collapse_whitespace s)"
  using collapse_set [of newline s] isspace_newline by (auto simp: newline_def)

lemma replace_newlines_id: "newline \<notin> set s \<Longrightarrow> replace_newlines s = s"
  by (induction s) (auto simp: replace_newlines_def)

lemma set_slice: "set (slice s a b) \<subseteq> set s"
  unfolding slice_def using set_drop_subset set_take_subset by fast

lemma collapse_hd: "s \<noteq> [] \<Longrightarrow> \<not> isspace (hd s) \<Longrightarrow> collapse_whitespace s = hd s # collapse_whitespace (tl s)"
  by (cases s) auto

lemma single_spaced_collapse: "single_spaced (collapse_whitespace s)"
proof (induction s rule: collapse_whitespace.induct)
  case 1
  show ?case by simp
next
  case (2 c cs)
  show ?case
  proof (cases "isspace c")
    case True
    let ?r = "dropWhile isspace cs"
    have ih: "single_spaced (collapse_whitespace ?r)" using 2(1) [OF True] .
    show ?thesis
    proof (cases ?r)
      case Nil
      with True show ?thesis by (simp del: dropWhile_eq_Nil_conv)
    next
      case (Cons d ds)
      then have "\<not> isspace d" using hd_dropWhile [of isspace cs] by auto
      with Cons ih True show ?thesis by auto
    qed
  next
    case False
    with 2(2) [OF False] show ?thesis by (cases "collapse_whitespace cs") auto
  qed
qed

lemma single_spaced_id: "single_spaced s \<Longrightarrow> collapse_whitespace s = s"
proof (induction s rule: single_spaced.induct)
  case 1
  show ?case by simp
next
  case (2 c)
  then show ?case by (auto split: if_splits)
next
  case (3 c d ds)
  then show ?case by (auto split: if_splits)
qed

lemma single_spaced_tl: "single_spaced (c # cs) \<Longrightarrow> single_spaced cs"
  by (cases cs) auto

lemma single_spaced_drop: "single_spaced s \<Longrightarrow> single_spaced (drop n s)"
proof (induction n arbitrary: s)
  case 0
  then show ?case by simp
next
  case (Suc n)
  then show ?case by (cases s) (auto dest: single_spaced_tl)
qed

lemma single_spaced_take: "single_spaced s \<Longrightarrow> single_spaced (take n s)"
proof (induction s arbitrary: n rule: single_spaced.induct)
  case 1
  show ?case by simp
next
  case (2 c)
  then show ?case by (cases n) auto
next
  case (3 c d ds)
  show ?case
  proof (cases n)
    case 0
    then show ?thesis by simp
  next
    case (Suc k)
    have "single_spaced (take k (d # ds))" using 3 by simp
    with 3(2) Suc show ?thesis by (cases k) (auto split: if_splits)
  qed
qed

lemma collapse_slice:
  "collapse_whitespace (slice (collapse_whitespace s) a b) = slice (collapse_whitespace s) a b"
  unfolding slice_def
  by (intro single_spaced_id single_spaced_drop single_spaced_take single_spaced_collapse)

lemma lower_space: "isspace (py_lower c) = isspace c"
  by (auto simp: py_lower_def isspace_def Let_def)

lemma lower_of_space: "isspace c \<Longrightarrow> py_lower c = c"
  by (auto simp: py_lower_def isspace_def Let_def)

lemma lower_eq_space: "py_lower c = py_lower d \<Longrightarrow> isspace c = isspace d"
  using lower_space by metis

lemma lower_eq_newline: "py_lower c = py_lower newline \<Longrightarrow> c = newline"
  using lower_space [of c] lower_of_space [of c] lower_of_space [OF isspace_newline] isspace_newline
  by auto

lemma dropWhile_keeps:
  "m \<noteq> [] \<Longrightarrow> \<not> P (hd m) \<Longrightarrow> \<exists>x'. dropWhile P (x @ m @ y) = x' @ m @ y"
proof (induction x)
  case Nil
  then show ?case by (cases m) auto
next
  case (Cons a x)
  then show ?case by (cases "P a") auto
qed

lemma strip_keeps:
  assumes "m \<noteq> []" "\<not> isspace (hd m)" "\<not> isspace (last m)"
  shows "\<exists>x' y'. strip (x @ m @ y) = x' @ m @ y'"
proof -
  from dropWhile_keeps [of m isspace x y] assms obtain x' where
    1: "dropWhile isspace (x @ m @ y) = x' @ m @ y" by blast
  have "rev m \<noteq> []" "\<not> isspace (hd (rev m))" using assms by (simp_all add: hd_rev)
  from dropWhile_keeps [of "rev m" isspace "rev y" "rev x'"] this obtain y' where
    2: "dropWhile isspace (rev y @ rev m @ rev x') = y' @ rev m @ rev x'" by blast
  have "strip (x @ m @ y) = x' @ m @ rev y'" by (simp add: strip_def 1 2)
  then show ?thesis by blast
qed

lemma slice_split2:
  assumes "a \<le> s" "s \<le> b"
  shows "slice h a b = slice h a s @ slice h s b"
proof -
  have "take b h = take s h @ take (b - s) (drop s h)"
    using take_add [of s "b - s" h] assms(2) by simp
  then have "drop a (take b h) =
      drop a (take s h) @ drop (a - length (take s h)) (take (b - s) (drop s h))"
    by simp
  moreover have "drop (a - length (take s h)) (take (b - s) (drop s h)) = take (b - s) (drop s h)"
    using assms(1) by (cases "s \<le> length h") auto
  ultimately show ?thesis by (simp add: slice_def drop_take)
qed

lemma slice_split:
  "a \<le> s \<Longrightarrow> s \<le> e \<Longrightarrow> e \<le> b \<Longrightarrow> slice h a b = slice h a s @ slice h s e @ slice h e b"
  using slice_split2 [of a s b h] slice_split2 [of s e b h] by simp

section \<open>The zone scanner computes the zones\<close>

lemma append_matches_eq: "append_matches mk occs matches = matches @ map mk occs"
  by (induction occs arbitrary: matches) auto

lemma search_text_eq:
  "search_text (re_escape keyword) soup ts url matches = Inr (matches @ text_zone keyword soup ts url)"
  by (simp add: search_text_def text_zone_def occurrences_def re_compile_escape append_matches_eq
      Let_def split: option.splits)

lemma search_scripts_eq:
  "search_scripts (re_escape keyword) scripts ts url matches =
     Inr (matches @ concat (map (script_matches keyword ts url) scripts))"
  by (induction scripts arbitrary: matches)
    (auto simp: script_matches_def occurrences_def re_compile_escape append_matches_eq
      split: option.splits)

lemma search_comments_eq:
  "search_comments (re_escape keyword) comments ts url matches =
     Inr (matches @ concat (map (comment_matches keyword ts url) comments))"
  by (induction comments arbitrary: matches)
    (auto simp: comment_matches_def occurrences_def re_compile_escape append_matches_eq)

lemma extract_data_zones:
  "extract_data parse html keyword ts url =
     (case parse html of
        Inl e \<Rightarrow> Inl e
      | Inr parsed \<Rightarrow>
          Inr (text_zone keyword (cleanup parsed) ts url @
               js_zone keyword (cleanup parsed) ts url @
               comment_zone keyword (cleanup parsed) ts url))"
  by (simp add: extract_data_def search_text_eq search_scripts_eq search_comments_eq
      js_zone_def comment_zone_def Let_def split: sum.splits)

lemma text_zone_matches: "text_zone keyword soup ts url = zone_matches TEXT keyword soup ts url"
  by (simp add: text_zone_def zone_matches_def text_snippet_def Let_def split: option.splits)

lemma js_zone_matches: "js_zone keyword soup ts url = zone_matches JS keyword soup ts url"
proof -
  have "concat (map (script_matches keyword ts url) scripts) =
        concat (map (\<lambda>haystack.
                map (\<lambda>m. make_match ts url JS (js_snippet haystack m)) (occurrences keyword haystack))
          (filter (\<lambda>s. s \<noteq> []) (List.map_filter string_of scripts)))" for scripts
    by (induction scripts) (auto simp: script_matches_def map_filter_simps split: option.splits)
  then show ?thesis
    by (simp add: js_zone_def zone_matches_def js_snippet_def Let_def)
qed

lemma comment_zone_matches: "comment_zone keyword soup ts url = zone_matches COMMENT keyword soup ts url"
proof -
  have "concat (map (comment_matches keyword ts url) comments) =
        concat (map (\<lambda>haystack.
                map (\<lambda>m. make_match ts url COMMENT (comment_snippet haystack m))
                  (occurrences keyword haystack))
          (filter (\<lambda>c. \<not> contains ''FILE ARCHIVED ON'' c) comments))" for comments
    by (induction comments) (auto simp: comment_matches_def)
  then show ?thesis
    by (simp add: comment_zone_def zone_matches_def comment_snippet_def Let_def)
qed

section \<open>Occurrences and snippets\<close>

lemma occurrence_bounds:
  assumes "m \<in> set (occurrences keyword haystack)"
  shows "snd m = fst m + length keyword" "snd m \<le> length haystack"
    "map py_lower (slice haystack (fst m) (snd m)) = map py_lower keyword"
proof -
  from assms finditer_from_sound [of m "map Literal keyword" haystack 0]
  have a: "fst m \<le> length haystack" and b: "snd m = fst m + length keyword"
    and c: "match_here (map Literal keyword) (drop (fst m) haystack)"
    by (simp_all add: occurrences_def finditer_def)
  from c have d: "length keyword \<le> length haystack - fst m"
    and e: "map py_lower (take (length keyword) (drop (fst m) haystack)) = map py_lower keyword"
    by (simp_all add: match_here_literal)
  show "snd m = fst m + length keyword" by (rule b)
  show "snd m \<le> length haystack" using a b d by simp
  show "map py_lower (slice haystack (fst m) (snd m)) = map py_lower keyword"
    using e b by (simp add: slice_def drop_take)
qed

lemma match_here_literal_at:
  "literal_at keyword haystack i \<longleftrightarrow>
     i \<le> length haystack \<and> match_here (map Literal keyword) (drop i haystack)"
  by (auto simp: literal_at_def match_here_literal slice_def drop_take)

lemma occurrences_sound:
  "m \<in> set (occurrences keyword haystack) \<Longrightarrow>
     snd m = fst m + length keyword \<and> literal_at keyword haystack (fst m)"
  using finditer_from_sound [of m "map Literal keyword" haystack 0]
  by (simp add: occurrences_def finditer_def match_here_literal_at)

lemma occurrences_cover:
  "literal_at keyword haystack i \<Longrightarrow>
     \<exists>m \<in> set (occurrences keyword haystack). fst m \<le> i \<and> (i < snd m \<or> i = fst m)"
  using finditer_from_covers [of 0 i haystack "map Literal keyword"]
  by (simp add: occurrences_def finditer_def match_here_literal_at)

lemma context_split:
  assumes "fst m \<le> snd m" "snd m \<le> length haystack"
  shows "slice haystack (context_start (fst m)) (context_end haystack (snd m)) =
           slice haystack (context_start (fst m)) (fst m) @
           slice haystack (fst m) (snd m) @
           slice haystack (snd m) (context_end haystack (snd m))"
  using assms by (intro slice_split) (auto simp: context_start_def context_end_def)

lemma replace_newlines_append:
  "replace_newlines (xs @ ys) = replace_newlines xs @ replace_newlines ys"
  by (simp add: replace_newlines_def)

lemma contains_in_ellipses: "contains needle s \<Longrightarrow> contains needle (''...'' @ s @ ''...'')"
proof -
  assume "contains needle s"
  then obtain pre post where "s = pre @ needle @ post"
    by (auto simp: contains_sublist sublist_def)
  then have "''...'' @ s @ ''...'' = (''...'' @ pre) @ needle @ (post @ ''...'')" by simp
  then show ?thesis using contains_append by metis
qed

lemma matched_text_shape:
  assumes "map py_lower mt = map py_lower keyword" "keyword \<noteq> []"
  shows "mt \<noteq> []" "isspace (hd mt) = isspace (hd keyword)" "isspace (last mt) = isspace (last keyword)"
    "newline \<in> set mt \<Longrightarrow> newline \<in> set keyword"
proof -
  from assms show ne: "mt \<noteq> []" by auto
  have "py_lower (hd mt) = py_lower (hd keyword)"
    using assms ne by (metis hd_map)
  then show "isspace (hd mt) = isspace (hd keyword)" by (rule lower_eq_space)
  have "py_lower (last mt) = py_lower (last keyword)"
    using assms ne by (metis last_map)
  then show "isspace (last mt) = isspace (last keyword)" by (rule lower_eq_space)
  assume "newline \<in> set mt"
  then have "py_lower newline \<in> set (map py_lower keyword)"
    using assms(1) by (metis image_eqI set_map)
  then obtain c where "c \<in> set keyword" "py_lower c = py_lower newline" by auto
  then show "newline \<in> set keyword" using lower_eq_newline by blast
qed

lemma snippets_contain:
  assumes m: "m \<in> set (occurrences keyword haystack)" and kw: "keyword \<noteq> []"
  shows "newline \<notin> set haystack \<Longrightarrow>
           contains (slice haystack (fst m) (snd m)) (text_snippet haystack m)"
    and "\<not> isspace (hd keyword) \<Longrightarrow> \<not> isspace (last keyword) \<Longrightarrow>
           contains (slice haystack (fst m) (snd m)) (comment_snippet haystack m)"
    and "\<not> isspace (hd keyword) \<Longrightarrow> \<not> isspace (last keyword) \<Longrightarrow> newline \<notin> set keyword \<Longrightarrow>
           contains (slice haystack (fst m) (snd m)) (js_snippet haystack m)"
proof -
  let ?mt = "slice haystack (fst m) (snd m)"
  let ?pre = "slice haystack (context_start (fst m)) (fst m)"
  let ?post = "slice haystack (snd m) (context_end haystack (snd m))"
  note b = occurrence_bounds [OF m]
  have split: "slice haystack (context_start (fst m)) (context_end haystack (snd m)) =
      ?pre @ ?mt @ ?post"
    using b by (intro context_split) simp_all
  note shape = matched_text_shape [OF b(3) kw]
  {
    assume "newline \<notin> set haystack"
    then have "newline \<notin> set (slice haystack (context_start (fst m)) (context_end haystack (snd m)))"
      using set_slice by fastforce
    then have "text_snippet haystack m = ''...'' @ (?pre @ ?mt @ ?post) @ ''...''"
      by (simp add: text_snippet_def Let_def replace_newlines_id split)
    moreover have "contains ?mt (''...'' @ (?pre @ ?mt @ ?post) @ ''...'')"
      using contains_append [of ?mt ?pre ?post] by (rule contains_in_ellipses)
    ultimately show "contains ?mt (text_snippet haystack m)" by (simp only:)
  }
  {
    assume e: "\<not> isspace (hd keyword)" "\<not> isspace (last keyword)"
    with shape have "\<not> isspace (hd ?mt)" "\<not> isspace (last ?mt)" by simp_all
    from strip_keeps [OF shape(1) this, of ?pre ?post]
    obtain x' y' where "strip (?pre @ ?mt @ ?post) = x' @ ?mt @ y'" by blast
    then have "contains ?mt (strip (?pre @ ?mt @ ?post))" by (simp add: contains_append)
    then have "contains ?mt (''...'' @ strip (?pre @ ?mt @ ?post) @ ''...'')"
      by (rule contains_in_ellipses)
    moreover have "comment_snippet haystack m = ''...'' @ strip (?pre @ ?mt @ ?post) @ ''...''"
      by (simp add: comment_snippet_def Let_def split)
    ultimately show "contains ?mt (comment_snippet haystack m)" by (simp only:)
  }
  {
    assume e: "\<not> isspace (hd keyword)" "\<not> isspace (last keyword)" "newline \<notin> set keyword"
    with shape have f: "\<not> isspace (hd ?mt)" "\<not> isspace (last ?mt)" "newline \<notin> set ?mt" by auto
    have "replace_newlines (?pre @ ?mt @ ?post) =
        replace_newlines ?pre @ ?mt @ replace_newlines ?post"
      using f(3) by (simp add: replace_newlines_append replace_newlines_id)
    moreover from strip_keeps [OF shape(1) f(1,2), of "replace_newlines ?pre" "replace_newlines ?post"]
    obtain x' y' where "strip (replace_newlines ?pre @ ?mt @ replace_newlines ?post) = x' @ ?mt @ y'"
      by blast
    ultimately have "contains ?mt (strip (replace_newlines (?pre @ ?mt @ ?post)))"
      by (simp add: contains_append)
    then have "contains ?mt (''...'' @ strip (replace_newlines (?pre @ ?mt @ ?post)) @ ''...'')"
      by (rule contains_in_ellipses)
    moreover have "js_snippet haystack m =
        ''...'' @ strip (replace_newlines (?pre @ ?mt @ ?post)) @ ''...''"
      by (simp add: js_snippet_def Let_def split)
    ultimately show "contains ?mt (js_snippet haystack m)" by (simp only:)
  }
qed

section \<open>The stream of a scan\<close>

lemma yield_matches_eq: "yield_matches ms st = st\<lparr>emitted := emitted st @ map MatchEvent ms\<rparr>"
  by (induction ms arbitrary: st) (auto simp: yield_def)

lemma scan_loop_emitted:
  "emitted (scan_loop env keyword n caps st) =
     emitted st @ concat (map (capture_events env keyword n) caps)"
proof (induction caps arbitrary: st)
  case Nil
  show ?case by simp
next
  case (Cons c caps)
  obtain i snap where c: "c = (i, snap)" by (cases c)
  show ?case
    unfolding c
    by (simp add: Cons capture_events_def capture_matches_def yield_matches_eq yield_def Let_def
        split: sum.splits)
qed

lemma scan_loop_found_any:
  "found_any (scan_loop env keyword n caps st) =
     (found_any st \<or> list_ex (\<lambda>c. capture_matches env keyword c \<noteq> []) caps)"
proof (induction caps arbitrary: st)
  case Nil
  show ?case by simp
next
  case (Cons c caps)
  obtain i snap where c: "c = (i, snap)" by (cases c)
  show ?case
    unfolding c
    by (simp add: Cons capture_matches_def yield_matches_eq yield_def Let_def
        split: sum.splits)
qed

lemma generate_empty:
  "fetch_snapshots env domain year limit = [] \<Longrightarrow>
   generate env domain year keyword limit =
     [contacting_event domain, Complete ''No snapshots found for this criteria.'']"
  by (simp add: generate_def yield_def)

lemma generate_nonempty:
  assumes "fetch_snapshots env domain year limit = snaps" "snaps \<noteq> []"
  shows "generate env domain year keyword limit =
     [contacting_event domain, analyzing_event (length snaps) keyword] @
     concat (map (capture_events env keyword (length snaps)) (enumerate 0 snaps)) @
     [Complete (if list_ex (\<lambda>c. capture_matches env keyword c \<noteq> []) (enumerate 0 snaps)
                then ''Scan complete.'' else ''Scan finished. No matches found.'')]"
  using assms
  by (simp add: generate_def yield_def Let_def scan_loop_emitted scan_loop_found_any)

lemma concat_capture_events_terminal:
  "filter is_terminal (concat (map (capture_events env keyword n) caps)) = []"
  by (induction caps) (auto simp: capture_events_def scanning_event_def filter_empty_conv)

lemma capture_events_match:
  "list_ex is_match_event (concat (map (capture_events env keyword n) caps)) =
   list_ex (\<lambda>c. capture_matches env keyword c \<noteq> []) caps"
proof (induction caps)
  case Nil
  show ?case by simp
next
  case (Cons c caps)
  have "list_ex is_match_event (capture_events env keyword n c) = (capture_matches env keyword c \<noteq> [])"
    by (cases "capture_matches env keyword c") (auto simp: capture_events_def scanning_event_def list_ex_iff)
  with Cons show ?case by (simp add: list_ex_append)
qed

lemma fetch_failed_matches: "fetch_failed env keyword c \<Longrightarrow> capture_matches env keyword c = []"
  by (auto simp: fetch_failed_def capture_matches_def split: sum.splits if_splits)


section \<open>The claims\<close>

subsection \<open>C1: the order of the events\<close>

lemma mixed_example:
  "fetch_snapshots mixed_env ''example.com'' None 100 \<noteq> []"
  "generate mixed_env ''example.com'' None ''login'' 100 =
     [Progress ''Contacting Wayback Machine for: example.com...'' None,
      analyzing_event 2 ''login'',
      Progress ''Scanning snapshot: 20200101000000...'' (Some (1, 2)),
      MatchEvent (make_match (JStr ''20200101000000'')
        ''https://web.archive.org/web/20200101000000/example.com'' TEXT ''...Please login here...''),
      MatchEvent (make_match (JStr ''20200101000000'')
        ''https://web.archive.org/web/20200101000000/example.com'' JS ''...doLogin();...''),
      MatchEvent (make_match (JStr ''20200101000000'')
        ''https://web.archive.org/web/20200101000000/example.com'' COMMENT ''...login note...''),
      Progress ''Scanning snapshot: 20210101000000...'' (Some (2, 2)),
      Complete ''Scan complete.'']"
  by code_simp+

lemma failing_example:
  "fetch_snapshots failing_env ''example.com'' None 100 =
     [\<lparr>snap_timestamp = JStr ''20200101000000'', snap_original = JStr ''example.com''\<rparr>,
      \<lparr>snap_timestamp = JStr ''20210101000000'', snap_original = JStr ''example.com''\<rparr>]"
  "fetch_failed failing_env ''login''
     (0, \<lparr>snap_timestamp = JStr ''20200101000000'', snap_original = JStr ''example.com''\<rparr>)"
  "fetch_failed failing_env ''login''
     (1, \<lparr>snap_timestamp = JStr ''20210101000000'', snap_original = JStr ''example.com''\<rparr>)"
  "generate failing_env ''example.com'' None ''login'' 100 =
     [Progress ''Contacting Wayback Machine for: example.com...'' None,
      analyzing_event 2 ''login'',
      Progress ''Scanning snapshot: 20200101000000...'' (Some (1, 2)),
      Progress ''Scanning snapshot: 20210101000000...'' (Some (2, 2)),
      Complete ''Scan finished. No matches found.'']"
  by code_simp+

text \<open>
  Claim C1.  Every stream is a list of events that are not terminal, followed by one
  \<open>complete\<close> event, which is its last event.  The events before it are the progress
  event of the contact and, when the index returned captures, the progress event of
  the analysis and then, capture by capture in the order of the index, the progress
  event of the capture followed by its \<open>match\<close> events: every \<open>match\<close> event of a
  capture stands before the progress event of the next one.
\<close>

theorem stream_order:
  "\<exists>events msg.
     generate env domain year keyword limit = events @ [Complete msg] \<and>
     \<not> list_ex is_terminal events \<and>
     events =
       contacting_event domain #
       (if fetch_snapshots env domain year limit = [] then []
        else analyzing_event (length (fetch_snapshots env domain year limit)) keyword #
             concat (map (capture_events env keyword (length (fetch_snapshots env domain year limit)))
                       (enumerate 0 (fetch_snapshots env domain year limit))))"
proof (cases "fetch_snapshots env domain year limit = []")
  case True
  then show ?thesis by (simp add: generate_empty contacting_event_def)
next
  case False
  have "\<not> list_ex is_terminal (concat (map (capture_events env keyword n) caps))" for n caps
    using concat_capture_events_terminal [of env keyword n caps]
    by (simp add: filter_empty_conv list_ex_iff)
  with False generate_nonempty [OF refl False, of keyword] show ?thesis
    by (simp add: contacting_event_def analyzing_event_def)
qed

theorem stream_order_witness:
  "generate mixed_env ''example.com'' None ''login'' 100 =
     [Progress ''Contacting Wayback Machine for: example.com...'' None,
      analyzing_event 2 ''login'',
      Progress ''Scanning snapshot: 20200101000000...'' (Some (1, 2)),
      MatchEvent (make_match (JStr ''20200101000000'')
        ''https://web.archive.org/web/20200101000000/example.com'' TEXT ''...Please login here...''),
      MatchEvent (make_match (JStr ''20200101000000'')
        ''https://web.archive.org/web/20200101000000/example.com'' JS ''...doLogin();...''),
      MatchEvent (make_match (JStr ''20200101000000'')
        ''https://web.archive.org/web/20200101000000/example.com'' COMMENT ''...login note...''),
      Progress ''Scanning snapshot: 20210101000000...'' (Some (2, 2)),
      Complete ''Scan complete.'']"
  using stream_order [of mixed_env "''example.com''" None "''login''" 100] mixed_example
  by simp

subsection \<open>C2: a capture whose fetch fails is skipped\<close>

text \<open>
  Claim C2.  When the index returns at least one capture, the stream is the two
  opening progress events, then what each capture yields, in order, then one
  \<open>complete\<close> event.  A capture whose fetch fails (the request raises, the status is
  not 200, or the processing of the page raises) yields its progress event and
  nothing else, and the loop goes on with the next capture in the state it had, that
  progress event added.  When every fetch fails, the stream ends with \<open>complete\<close> and
  the message "Scan finished. No matches found.".
\<close>

theorem failed_capture_skipped:
  assumes "fetch_snapshots env domain year limit = snaps" and "snaps \<noteq> []"
  shows "(\<exists>msg. generate env domain year keyword limit =
            [contacting_event domain, analyzing_event (length snaps) keyword] @
            concat (map (capture_events env keyword (length snaps)) (enumerate 0 snaps)) @
            [Complete msg]) \<and>
         (\<forall>c. fetch_failed env keyword c \<longrightarrow>
            capture_events env keyword (length snaps) c =
              [scanning_event env (length snaps) (fst c) (snd c)] \<and>
            (\<forall>rest st. scan_loop env keyword (length snaps) (c # rest) st =
               scan_loop env keyword (length snaps) rest
                 (yield (scanning_event env (length snaps) (fst c) (snd c)) st))) \<and>
         (list_all (fetch_failed env keyword) (enumerate 0 snaps) \<longrightarrow>
            generate env domain year keyword limit =
              [contacting_event domain, analyzing_event (length snaps) keyword] @
              map (\<lambda>c. scanning_event env (length snaps) (fst c) (snd c)) (enumerate 0 snaps) @
              [Complete ''Scan finished. No matches found.''])"
proof (intro conjI allI impI)
  show "\<exists>msg. generate env domain year keyword limit =
            [contacting_event domain, analyzing_event (length snaps) keyword] @
            concat (map (capture_events env keyword (length snaps)) (enumerate 0 snaps)) @
            [Complete msg]"
    using generate_nonempty [OF assms] by blast
next
  fix c assume "fetch_failed env keyword c"
  then show "capture_events env keyword (length snaps) c =
      [scanning_event env (length snaps) (fst c) (snd c)]"
    by (simp add: capture_events_def fetch_failed_matches)
next
  fix c rest st assume failed: "fetch_failed env keyword c"
  obtain i snap where c: "c = (i, snap)" by (cases c)
  from failed show "scan_loop env keyword (length snaps) (c # rest) st =
      scan_loop env keyword (length snaps) rest
        (yield (scanning_event env (length snaps) (fst c) (snd c)) st)"
    unfolding c by (auto simp: fetch_failed_def Let_def split: sum.splits if_splits)
next
  assume all: "list_all (fetch_failed env keyword) (enumerate 0 snaps)"
  have none: "list_all (fetch_failed env keyword) caps \<Longrightarrow>
      \<not> list_ex (\<lambda>c. capture_matches env keyword c \<noteq> []) caps" for caps
    by (induction caps) (auto simp: fetch_failed_matches)
  have chunks: "list_all (fetch_failed env keyword) caps \<Longrightarrow>
      concat (map (capture_events env keyword n) caps) =
        map (\<lambda>c. scanning_event env n (fst c) (snd c)) caps" for caps n
    by (induction caps) (auto simp: capture_events_def fetch_failed_matches)
  show "generate env domain year keyword limit =
      [contacting_event domain, analyzing_event (length snaps) keyword] @
      map (\<lambda>c. scanning_event env (length snaps) (fst c) (snd c)) (enumerate 0 snaps) @
      [Complete ''Scan finished. No matches found.'']"
    using generate_nonempty [OF assms, of keyword] none [OF all] chunks [OF all] by simp
qed

theorem failed_capture_skipped_witness:
  "fetch_snapshots failing_env ''example.com'' None 100 =
     [\<lparr>snap_timestamp = JStr ''20200101000000'', snap_original = JStr ''example.com''\<rparr>,
      \<lparr>snap_timestamp = JStr ''20210101000000'', snap_original = JStr ''example.com''\<rparr>] \<and>
   fetch_failed failing_env ''login''
     (0, \<lparr>snap_timestamp = JStr ''20200101000000'', snap_original = JStr ''example.com''\<rparr>) \<and>
   fetch_failed failing_env ''login''
     (1, \<lparr>snap_timestamp = JStr ''20210101000000'', snap_original = JStr ''example.com''\<rparr>) \<and>
   generate failing_env ''example.com'' None ''login'' 100 =
     [Progress ''Contacting Wayback Machine for: example.com...'' None,
      analyzing_event 2 ''login'',
      Progress ''Scanning snapshot: 20200101000000...'' (Some (1, 2)),
      Progress ''Scanning snapshot: 20210101000000...'' (Some (2, 2)),
      Complete ''Scan finished. No matches found.'']"
  using failed_capture_skipped [OF failing_example(1), of "''login''"] failing_example
  by simp

subsection \<open>C3: a failed discovery ends the scan with \<open>complete\<close>\<close>




subsection \<open>C4: empty keyword, empty haystack\<close>

lemma ab_example:
  "extract_data (\<lambda>html. Inr page_ab) ''<html>'' [] (JStr ''2020'') ''u'' =
     Inr [make_match (JStr ''2020'') ''u'' TEXT ''...ab...'',
          make_match (JStr ''2020'') ''u'' TEXT ''...ab...'',
          make_match (JStr ''2020'') ''u'' TEXT ''...ab...'']"
  "occurrences [] ''ab'' = [(0, 0), (1, 1), (2, 2)]"
  "occurrences ''login'' [] = []"
  "scan base_env (Some ''example.com'') None (Some []) None =
     BadRequest ''Missing required parameters: domain and keyword''"
  by code_simp+

text \<open>
  Claim C4, as the code has it.  The route answers a request whose keyword is absent
  or empty with status 400, so no stream starts and \<open>extract_data\<close> never sees an
  empty keyword.  For every keyword that is not empty, an empty haystack has no
  occurrence.  The matcher never raises on an escaped keyword: an exception leaves
  \<open>extract_data\<close> only when the parser raised it.  Called with the empty keyword all
  the same, the matcher finds the empty occurrence at every offset from 0 to the
  length of the haystack.
\<close>

theorem empty_keyword_and_haystack:
  "scan env domain year None limit =
     BadRequest ''Missing required parameters: domain and keyword'' \<and>
   scan env domain year (Some []) limit =
     BadRequest ''Missing required parameters: domain and keyword'' \<and>
   (keyword \<noteq> [] \<longrightarrow> occurrences keyword [] = []) \<and>
   occurrences [] haystack = map (\<lambda>i. (i, i)) [0..<length haystack + 1] \<and>
   re_compile (re_escape keyword) = Inr (map Literal keyword) \<and>
   (\<forall>e. extract_data parse html keyword ts url = Inl e \<longrightarrow> parse html = Inl e)"
proof (intro conjI impI allI)
  show "scan env domain year None limit =
      BadRequest ''Missing required parameters: domain and keyword''"
    by (simp add: scan_def split: option.splits)
  show "scan env domain year (Some []) limit =
      BadRequest ''Missing required parameters: domain and keyword''"
    by (simp add: scan_def split: option.splits)
  show "occurrences keyword [] = []" if "keyword \<noteq> []"
    using that by (simp add: occurrences_def finditer_empty_haystack)
  show "occurrences [] haystack = map (\<lambda>i. (i, i)) [0..<length haystack + 1]"
    using finditer_from_empty_pattern [of 0 haystack] by (simp add: occurrences_def finditer_def)
  show "re_compile (re_escape keyword) = Inr (map Literal keyword)"
    by (rule re_compile_escape)
  show "parse html = Inl e" if "extract_data parse html keyword ts url = Inl e" for e
    using that by (simp add: extract_data_zones split: sum.splits)
qed

theorem empty_keyword_and_haystack_witness:
  "occurrences ''login'' [] = [] \<and>
   occurrences [] ''ab'' = [(0, 0), (1, 1), (2, 2)] \<and>
   scan base_env (Some ''example.com'') None (Some []) None =
     BadRequest ''Missing required parameters: domain and keyword''"
  using empty_keyword_and_haystack [of base_env "Some ''example.com''" None None "''login''" "''ab''"]
    ab_example
  by simp

text \<open>The claim as the specification states it fails: with the empty keyword, the
  body text \<open>ab\<close> gives three matches.\<close>

theorem empty_keyword_matches:
  "extract_data (\<lambda>html. Inr page_ab) ''<html>'' [] (JStr ''2020'') ''u'' =
     Inr [make_match (JStr ''2020'') ''u'' TEXT ''...ab...'',
          make_match (JStr ''2020'') ''u'' TEXT ''...ab...'',
          make_match (JStr ''2020'') ''u'' TEXT ''...ab...'']"
  using ab_example by simp

subsection \<open>C5: the keyword is literal text\<close>

lemma dot_examples:
  "re_compile (re_escape ''a.b'') = Inr [Literal CHR ''a'', Literal CHR ''.'', Literal CHR ''b'']"
  "finditer [Literal CHR ''a'', Literal CHR ''.'', Literal CHR ''b''] ''axb'' = []"
  "finditer [Literal CHR ''a'', Literal CHR ''.'', Literal CHR ''b''] ''xA.By'' = [(1, 4)]"
  "re_compile ''a.b'' = Inr [Literal CHR ''a'', AnyChar, Literal CHR ''b'']"
  "finditer [Literal CHR ''a'', AnyChar, Literal CHR ''b''] ''axb'' = [(0, 3)]"
  by code_simp+

lemma dot_page_example:
  "extract_data (\<lambda>html. Inr page_dot) ''<html>'' ''a.b'' (JStr ''2020'') ''u'' =
     Inr [make_match (JStr ''2020'') ''u'' TEXT ''...axb A.B...'',
          make_match (JStr ''2020'') ''u'' COMMENT ''...a.b...'']"
  "occurrences ''a.b'' ''axb A.B'' = [(4, 7)]"
  "occurrences ''a.b'' ''axb'' = []"
  "literal_at ''a.b'' ''axb A.B'' 4"
  "\<not> literal_at ''a.b'' ''axb A.B'' 0"
  by code_simp+

text \<open>
  Claim C5.  Whatever characters the keyword holds, the pattern that \<open>extract_data\<close>
  compiles from the escaped keyword is the sequence of the keyword's own characters,
  each a literal, and for every page that the parser accepts the matches returned by
  \<open>extract_data\<close> are those of the occurrences of the keyword in the haystacks of the
  three zones.  Every occurrence spans exactly the length of the keyword at an offset
  where the keyword stands as literal text, up to letter case; and every offset where
  it stands so is the start of an occurrence or lies inside one found before it.  So
  the keyword \<open>a.b\<close> matches \<open>A.B\<close> and never \<open>axb\<close>, which the unescaped pattern \<open>a.b\<close>
  would match.
\<close>

theorem keyword_is_literal:
  assumes "parse html = Inr parsed"
  shows "re_compile (re_escape keyword) = Inr (map Literal keyword) \<and>
         extract_data parse html keyword ts url =
           Inr (zone_matches TEXT keyword (cleanup parsed) ts url @
                zone_matches JS keyword (cleanup parsed) ts url @
                zone_matches COMMENT keyword (cleanup parsed) ts url) \<and>
         (\<forall>haystack. \<forall>m \<in> set (occurrences keyword haystack).
            snd m = fst m + length keyword \<and> literal_at keyword haystack (fst m)) \<and>
         (\<forall>haystack i. literal_at keyword haystack i \<longrightarrow>
            (\<exists>m \<in> set (occurrences keyword haystack). fst m \<le> i \<and> (i < snd m \<or> i = fst m)))"
proof (intro conjI allI ballI impI)
  show "re_compile (re_escape keyword) = Inr (map Literal keyword)"
    by (rule re_compile_escape)
  show "extract_data parse html keyword ts url =
           Inr (zone_matches TEXT keyword (cleanup parsed) ts url @
                zone_matches JS keyword (cleanup parsed) ts url @
                zone_matches COMMENT keyword (cleanup parsed) ts url)"
    using assms
    by (simp add: extract_data_zones text_zone_matches js_zone_matches comment_zone_matches)
next
  fix haystack m assume m: "m \<in> set (occurrences keyword haystack)"
  from occurrences_sound [OF m] show "snd m = fst m + length keyword"
    and "literal_at keyword haystack (fst m)" by simp_all
next
  fix haystack i assume "literal_at keyword haystack i"
  then show "\<exists>m \<in> set (occurrences keyword haystack). fst m \<le> i \<and> (i < snd m \<or> i = fst m)"
    by (rule occurrences_cover)
qed

theorem keyword_is_literal_witness:
  "extract_data (\<lambda>html. Inr page_dot) ''<html>'' ''a.b'' (JStr ''2020'') ''u'' =
     Inr [make_match (JStr ''2020'') ''u'' TEXT ''...axb A.B...'',
          make_match (JStr ''2020'') ''u'' COMMENT ''...a.b...''] \<and>
   occurrences ''a.b'' ''axb A.B'' = [(4, 7)] \<and>
   occurrences ''a.b'' ''axb'' = [] \<and>
   literal_at ''a.b'' ''axb A.B'' 4 \<and>
   \<not> literal_at ''a.b'' ''axb A.B'' 0 \<and>
   re_compile (re_escape ''a.b'') = Inr [Literal CHR ''a'', Literal CHR ''.'', Literal CHR ''b''] \<and>
   re_compile ''a.b'' = Inr [Literal CHR ''a'', AnyChar, Literal CHR ''b''] \<and>
   finditer [Literal CHR ''a'', AnyChar, Literal CHR ''b''] ''axb'' = [(0, 3)]"
  using keyword_is_literal [of "\<lambda>html. Inr page_dot" "''<html>''" page_dot "''a.b''"
      "JStr ''2020''" "''u''"] dot_page_example dot_examples
  by simp

subsection \<open>C6: how a snippet is built\<close>

lemma spaced_script_example:
  "extract_data (\<lambda>html. Inr page_spaced_script) ''<html>'' ''b'' (JStr ''2020'') ''u'' =
     Inr [make_match (JStr ''2020'') ''u'' TEXT ''... yyyyyyyyyyyyyyyyyyyyyyyyyyyyyb...'',
          make_match (JStr ''2020'') ''u'' JS ''...a  b...'']"
  "zone_haystacks TEXT (cleanup page_spaced_script) = [''x yyyyyyyyyyyyyyyyyyyyyyyyyyyyyb'']"
  "zone_haystacks JS (cleanup page_spaced_script) = [''a  b'']"
  "occurrences ''b'' ''x yyyyyyyyyyyyyyyyyyyyyyyyyyyyyb'' = [(31, 32)]"
  "occurrences ''b'' ''a  b'' = [(3, 4)]"
  "spec_snippet ''x yyyyyyyyyyyyyyyyyyyyyyyyyyyyyb'' (31, 32) = ''...yyyyyyyyyyyyyyyyyyyyyyyyyyyyyb...''"
  "spec_snippet ''a  b'' (3, 4) = ''...a b...''"
  by code_simp+

text \<open>
  Claim C6, as the code has it.  For every page that the parser accepts, the matches
  are, zone by zone and haystack by haystack, one per occurrence \<open>(start, end)\<close>, with
  the snippet \<open>"..." + context + "..."\<close>, where the context comes from the slice
  \<open>haystack[max(0, start - 30) : min(len, end + 30)]\<close>: in the JS zone the slice with
  every newline replaced by a blank and then stripped; in the COMMENT zone the slice
  stripped; in the TEXT zone the slice as it is, and there the haystack is the body
  text with its whitespace runs already collapsed, so the slice holds no newline and
  no whitespace run.
\<close>

theorem snippet_by_zone:
  assumes "parse html = Inr parsed"
  shows "extract_data parse html keyword ts url =
           Inr (zone_matches TEXT keyword (cleanup parsed) ts url @
                zone_matches JS keyword (cleanup parsed) ts url @
                zone_matches COMMENT keyword (cleanup parsed) ts url) \<and>
         (\<forall>haystack \<in> set (zone_haystacks TEXT (cleanup parsed)). \<forall>a b.
            zone_context TEXT (slice haystack a b) = slice haystack a b \<and>
            collapse_whitespace (slice haystack a b) = slice haystack a b)"
proof -
  have "zone_context TEXT (slice haystack a b) = slice haystack a b \<and>
        collapse_whitespace (slice haystack a b) = slice haystack a b"
    if "haystack \<in> set (zone_haystacks TEXT soup)" for haystack soup a b
  proof -
    from that obtain body where h: "haystack = collapse_whitespace (get_text body)"
      by (auto split: option.splits)
    have "newline \<notin> set (slice haystack a b)"
      using set_slice [of haystack a b] collapse_no_newline unfolding h by blast
    then show ?thesis
      unfolding h by (simp add: replace_newlines_id collapse_slice)
  qed
  with assms show ?thesis
    by (simp add: extract_data_zones text_zone_matches js_zone_matches comment_zone_matches)
qed

theorem snippet_by_zone_witness:
  "extract_data (\<lambda>html. Inr page_spaced_script) ''<html>'' ''b'' (JStr ''2020'') ''u'' =
     Inr [make_match (JStr ''2020'') ''u'' TEXT ''... yyyyyyyyyyyyyyyyyyyyyyyyyyyyyb...'',
          make_match (JStr ''2020'') ''u'' JS ''...a  b...''] \<and>
   zone_haystacks TEXT (cleanup page_spaced_script) = [''x yyyyyyyyyyyyyyyyyyyyyyyyyyyyyb''] \<and>
   zone_haystacks JS (cleanup page_spaced_script) = [''a  b'']"
  using snippet_by_zone [of "\<lambda>html. Inr page_spaced_script" "''<html>''" page_spaced_script
      "''b''" "JStr ''2020''" "''u''"] spaced_script_example
  by simp

text \<open>The claim as the specification states it fails: the JS snippet keeps a run of
  two blanks, and the TEXT snippet keeps the blank on which its slice starts.\<close>

theorem snippet_not_as_specified:
  "extract_data (\<lambda>html. Inr page_spaced_script) ''<html>'' ''b'' (JStr ''2020'') ''u'' =
     Inr [make_match (JStr ''2020'') ''u'' TEXT ''... yyyyyyyyyyyyyyyyyyyyyyyyyyyyyb...'',
          make_match (JStr ''2020'') ''u'' JS ''...a  b...''] \<and>
   occurrences ''b'' ''x yyyyyyyyyyyyyyyyyyyyyyyyyyyyyb'' = [(31, 32)] \<and>
   ''... yyyyyyyyyyyyyyyyyyyyyyyyyyyyyb...'' \<noteq>
     spec_snippet ''x yyyyyyyyyyyyyyyyyyyyyyyyyyyyyb'' (31, 32) \<and>
   occurrences ''b'' ''a  b'' = [(3, 4)] \<and>
   ''...a  b...'' \<noteq> spec_snippet ''a  b'' (3, 4)"
  using spaced_script_example by simp

subsection \<open>C7: the occurrences of one haystack\<close>

lemma login_example:
  "occurrences ''login'' ''Please LOGIN or login'' = [(7, 12), (16, 21)]"
  "slice ''Please LOGIN or login'' 7 12 = ''LOGIN''"
  "text_snippet ''Please LOGIN or login'' (7, 12) = ''...Please LOGIN or login...''"
  "js_snippet ''Please LOGIN or login'' (7, 12) = ''...Please LOGIN or login...''"
  "comment_snippet ''Please LOGIN or login'' (7, 12) = ''...Please LOGIN or login...''"
  "contains ''LOGIN'' ''...Please LOGIN or login...''"
  by code_simp+

lemma two_lines_example:
  "extract_data (\<lambda>html. Inr page_two_lines) ''<html>'' ''login'' (JStr ''2020'') ''u'' =
     Inr [make_match (JStr ''2020'') ''u'' JS ''...x Login LOGIN...'',
          make_match (JStr ''2020'') ''u'' JS ''...x Login LOGIN...'']"
  "occurrences ''login'' two_lines = [(2, 7), (8, 13)]"
  "occurrences (''n'' @ [newline] @ ''l'') two_lines = [(6, 9)]"
  "slice two_lines 2 7 = ''Login''"
  "slice two_lines 8 13 = ''LOGIN''"
  "literal_at ''login'' two_lines 8"
  "js_snippet two_lines (8, 13) = ''...x Login LOGIN...''"
  "comment_snippet two_lines (8, 13) = ''...x Login'' @ [newline] @ ''LOGIN...''"
  "contains ''LOGIN'' ''...x Login LOGIN...''"
  "contains ''LOGIN'' (''...x Login'' @ [newline] @ ''LOGIN...'')"
  by code_simp+

lemma edge_script_example:
  "extract_data (\<lambda>html. Inr page_edge_script) ''<html>'' ''x '' (JStr ''2020'') ''u'' =
     Inr [make_match (JStr ''2020'') ''u'' JS ''...x...'']"
  "occurrences ''x '' ''x '' = [(0, 2)]"
  "slice ''x '' 0 2 = ''x ''"
  "\<not> contains ''x '' ''...x...''"
  by code_simp+

text \<open>
  Claim C7, as the code has it.  For every keyword that is not empty, the matches
  that \<open>extract_data\<close> returns for a page are those of the occurrences of the keyword
  in the haystacks of the three zones, and in every haystack:
  the occurrences are sorted and do not overlap (each ends before the next starts);
  each spans an offset where the keyword stands as literal text up to letter case;
  every offset of the haystack where the keyword stands so, on whatever line and
  across line ends, lies inside an occurrence (the search covers the whole haystack
  and is case-insensitive).
  The snippet of an occurrence contains the matched text with its own casing: in the
  TEXT zone always (its haystacks hold no newline); in the COMMENT zone when the
  keyword neither starts nor ends with whitespace; in the JS zone when, in addition,
  the keyword holds no newline.
\<close>

theorem occurrences_ordered:
  assumes "keyword \<noteq> []"
  shows "re_compile (re_escape keyword) = Inr (map Literal keyword) \<and>
         (\<forall>parse html parsed ts url. parse html = Inr parsed \<longrightarrow>
            extract_data parse html keyword ts url =
              Inr (zone_matches TEXT keyword (cleanup parsed) ts url @
                   zone_matches JS keyword (cleanup parsed) ts url @
                   zone_matches COMMENT keyword (cleanup parsed) ts url)) \<and>
         sorted_wrt (\<lambda>m m'. snd m \<le> fst m') (occurrences keyword haystack) \<and>
         (\<forall>m \<in> set (occurrences keyword haystack).
            fst m < snd m \<and> snd m \<le> length haystack \<and>
            snd m = fst m + length keyword \<and> literal_at keyword haystack (fst m) \<and>
            map py_lower (slice haystack (fst m) (snd m)) = map py_lower keyword \<and>
            (newline \<notin> set haystack \<longrightarrow>
               contains (slice haystack (fst m) (snd m)) (text_snippet haystack m)) \<and>
            (\<not> isspace (hd keyword) \<and> \<not> isspace (last keyword) \<longrightarrow>
               contains (slice haystack (fst m) (snd m)) (comment_snippet haystack m)) \<and>
            (\<not> isspace (hd keyword) \<and> \<not> isspace (last keyword) \<and> newline \<notin> set keyword \<longrightarrow>
               contains (slice haystack (fst m) (snd m)) (js_snippet haystack m))) \<and>
         (\<forall>i. literal_at keyword haystack i \<longrightarrow>
            (\<exists>m \<in> set (occurrences keyword haystack). fst m \<le> i \<and> i < snd m)) \<and>
         (\<forall>soup. \<forall>h \<in> set (zone_haystacks TEXT soup). newline \<notin> set h)"
proof (intro conjI ballI allI impI)
  show "re_compile (re_escape keyword) = Inr (map Literal keyword)"
    by (rule re_compile_escape)
  show "sorted_wrt (\<lambda>m m'. snd m \<le> fst m') (occurrences keyword haystack)"
    using assms by (simp add: occurrences_def finditer_def finditer_from_sorted)
next
  fix parse :: "string \<Rightarrow> exn + node" and html parsed ts url
  assume "parse html = Inr parsed"
  then show "extract_data parse html keyword ts url =
              Inr (zone_matches TEXT keyword (cleanup parsed) ts url @
                   zone_matches JS keyword (cleanup parsed) ts url @
                   zone_matches COMMENT keyword (cleanup parsed) ts url)"
    by (simp add: extract_data_zones text_zone_matches js_zone_matches comment_zone_matches)
next
  fix m assume m: "m \<in> set (occurrences keyword haystack)"
  note b = occurrence_bounds [OF m]
  show "fst m < snd m" using b(1) assms by simp
  show "snd m \<le> length haystack" by (rule b(2))
  show "snd m = fst m + length keyword" by (rule b(1))
  show "literal_at keyword haystack (fst m)" using occurrences_sound [OF m] by simp
  show "map py_lower (slice haystack (fst m) (snd m)) = map py_lower keyword" by (rule b(3))
  show "contains (slice haystack (fst m) (snd m)) (text_snippet haystack m)"
    if "newline \<notin> set haystack"
    using snippets_contain(1) [OF m assms that] .
  show "contains (slice haystack (fst m) (snd m)) (comment_snippet haystack m)"
    if "\<not> isspace (hd keyword) \<and> \<not> isspace (last keyword)"
    using snippets_contain(2) [OF m assms] that by blast
  show "contains (slice haystack (fst m) (snd m)) (js_snippet haystack m)"
    if "\<not> isspace (hd keyword) \<and> \<not> isspace (last keyword) \<and> newline \<notin> set keyword"
    using snippets_contain(3) [OF m assms] that by blast
next
  fix i assume "literal_at keyword haystack i"
  from occurrences_cover [OF this] obtain m where
    m: "m \<in> set (occurrences keyword haystack)" "fst m \<le> i" "i < snd m \<or> i = fst m" by blast
  from occurrence_bounds(1) [OF m(1)] assms have "fst m < snd m" by simp
  with m show "\<exists>m \<in> set (occurrences keyword haystack). fst m \<le> i \<and> i < snd m" by auto
next
  fix soup h assume "h \<in> set (zone_haystacks TEXT soup)"
  then show "newline \<notin> set h"
    using collapse_no_newline by (auto split: option.splits)
qed

theorem occurrences_ordered_witness:
  "occurrences ''login'' ''Please LOGIN or login'' = [(7, 12), (16, 21)] \<and>
   slice ''Please LOGIN or login'' 7 12 = ''LOGIN'' \<and>
   text_snippet ''Please LOGIN or login'' (7, 12) = ''...Please LOGIN or login...'' \<and>
   contains ''LOGIN'' ''...Please LOGIN or login...'' \<and>
   extract_data (\<lambda>html. Inr page_two_lines) ''<html>'' ''login'' (JStr ''2020'') ''u'' =
     Inr [make_match (JStr ''2020'') ''u'' JS ''...x Login LOGIN...'',
          make_match (JStr ''2020'') ''u'' JS ''...x Login LOGIN...''] \<and>
   occurrences ''login'' two_lines = [(2, 7), (8, 13)] \<and>
   occurrences (''n'' @ [newline] @ ''l'') two_lines = [(6, 9)] \<and>
   slice two_lines 8 13 = ''LOGIN'' \<and>
   literal_at ''login'' two_lines 8 \<and>
   js_snippet two_lines (8, 13) = ''...x Login LOGIN...'' \<and>
   comment_snippet two_lines (8, 13) = ''...x Login'' @ [newline] @ ''LOGIN...'' \<and>
   contains ''LOGIN'' ''...x Login LOGIN...'' \<and>
   contains ''LOGIN'' (''...x Login'' @ [newline] @ ''LOGIN...'')"
proof -
  have kw: "''login'' \<noteq> []" by simp
  from occurrences_ordered [OF kw, of "''Please LOGIN or login''"]
    occurrences_ordered [OF kw, of two_lines] login_example two_lines_example
  show ?thesis by simp
qed

text \<open>The claim as the specification states it fails: for the keyword \<open>x\<close> followed
  by a blank, the JS snippet of the script \<open>x\<close> followed by a blank is stripped and no
  longer contains the matched text.\<close>

theorem snippet_loses_matched_text:
  "extract_data (\<lambda>html. Inr page_edge_script) ''<html>'' ''x '' (JStr ''2020'') ''u'' =
     Inr [make_match (JStr ''2020'') ''u'' JS ''...x...''] \<and>
   occurrences ''x '' ''x '' = [(0, 2)] \<and>
   slice ''x '' 0 2 = ''x '' \<and>
   \<not> contains ''x '' ''...x...''"
  using edge_script_example by simp

subsection \<open>C8: zone order, timestamp and archive URL\<close>

lemma three_zones_example:
  "extract_data (\<lambda>html. Inr page_three_zones) ''<html>'' ''login'' (JStr ''20200101000000'') ''u'' =
     Inr [make_match (JStr ''20200101000000'') ''u'' TEXT ''...Please login here...'',
          make_match (JStr ''20200101000000'') ''u'' JS ''...doLogin();...'',
          make_match (JStr ''20200101000000'') ''u'' COMMENT ''...login note...'']"
  by code_simp

text \<open>
  Claim C8.  For every page that the parser accepts, and every keyword, timestamp and
  archive URL, the result of \<open>extract_data\<close> is the list of the matches of the visible
  text, then those of the scripts, then those of the comments; every match of a zone
  has that zone's type, and every match carries the timestamp and the archive URL
  that were passed in.
\<close>

theorem zone_order:
  assumes "parse html = Inr parsed"
  shows "extract_data parse html keyword ts url =
           Inr (text_zone keyword (cleanup parsed) ts url @
                js_zone keyword (cleanup parsed) ts url @
                comment_zone keyword (cleanup parsed) ts url) \<and>
         list_all (\<lambda>m. matchType m = TEXT \<and> timestamp m = ts \<and> archiveUrl m = url)
           (text_zone keyword (cleanup parsed) ts url) \<and>
         list_all (\<lambda>m. matchType m = JS \<and> timestamp m = ts \<and> archiveUrl m = url)
           (js_zone keyword (cleanup parsed) ts url) \<and>
         list_all (\<lambda>m. matchType m = COMMENT \<and> timestamp m = ts \<and> archiveUrl m = url)
           (comment_zone keyword (cleanup parsed) ts url)"
proof -
  have "list_all (\<lambda>m. matchType m = TEXT \<and> timestamp m = ts \<and> archiveUrl m = url)
           (text_zone keyword soup ts url)" for soup
    by (auto simp: text_zone_def make_match_def list_all_iff split: option.splits)
  moreover have "list_all (\<lambda>m. matchType m = JS \<and> timestamp m = ts \<and> archiveUrl m = url)
           (js_zone keyword soup ts url)" for soup
    by (auto simp: js_zone_def script_matches_def make_match_def list_all_iff split: option.splits if_splits)
  moreover have "list_all (\<lambda>m. matchType m = COMMENT \<and> timestamp m = ts \<and> archiveUrl m = url)
           (comment_zone keyword soup ts url)" for soup
    by (auto simp: comment_zone_def comment_matches_def make_match_def list_all_iff split: if_splits)
  ultimately show ?thesis using assms by (simp add: extract_data_zones)
qed

theorem zone_order_witness:
  "extract_data (\<lambda>html. Inr page_three_zones) ''<html>'' ''login'' (JStr ''20200101000000'') ''u'' =
     Inr [make_match (JStr ''20200101000000'') ''u'' TEXT ''...Please login here...'',
          make_match (JStr ''20200101000000'') ''u'' JS ''...doLogin();...'',
          make_match (JStr ''20200101000000'') ''u'' COMMENT ''...login note...'']"
  using zone_order [of "\<lambda>html. Inr page_three_zones" "''<html>''" page_three_zones "''login''"
      "JStr ''20200101000000''" "''u''"] three_zones_example
  by simp

subsection \<open>C9: the message of the \<open>complete\<close> event\<close>

text \<open>
  Claim C9.  When the index returns at least one capture, the loop runs through all
  of them and the stream holds exactly one terminal event, its last one: a \<open>complete\<close>
  event whose message is "Scan complete." if the stream holds a \<open>match\<close> event, and
  "Scan finished. No matches found." if it holds none.
\<close>

theorem completion_message:
  assumes "fetch_snapshots env domain year limit \<noteq> []"
  shows "filter is_terminal (generate env domain year keyword limit) =
           [Complete (if list_ex is_match_event (generate env domain year keyword limit)
                      then ''Scan complete.'' else ''Scan finished. No matches found.'')] \<and>
         last (generate env domain year keyword limit) =
           Complete (if list_ex is_match_event (generate env domain year keyword limit)
                     then ''Scan complete.'' else ''Scan finished. No matches found.'')"
proof -
  let ?snaps = "fetch_snapshots env domain year limit"
  let ?caps = "enumerate 0 ?snaps"
  let ?chunks = "concat (map (capture_events env keyword (length ?snaps)) ?caps)"
  let ?found = "list_ex (\<lambda>c. capture_matches env keyword c \<noteq> []) ?caps"
  let ?msg = "if ?found then ''Scan complete.'' else ''Scan finished. No matches found.''"
  have gen: "generate env domain year keyword limit =
      [contacting_event domain, analyzing_event (length ?snaps) keyword] @ ?chunks @ [Complete ?msg]"
    using generate_nonempty [OF refl assms] .
  have found: "list_ex is_match_event (generate env domain year keyword limit) = ?found"
    unfolding gen
    by (simp add: list_ex_append capture_events_match contacting_event_def analyzing_event_def)
  have "filter is_terminal (generate env domain year keyword limit) = [Complete ?msg]"
    unfolding gen
    by (simp add: concat_capture_events_terminal contacting_event_def analyzing_event_def)
  moreover have "last (generate env domain year keyword limit) = Complete ?msg"
    unfolding gen by simp
  ultimately show ?thesis unfolding found by simp
qed

theorem completion_message_witness:
  "fetch_snapshots mixed_env ''example.com'' None 100 \<noteq> [] \<and>
   list_ex is_match_event (generate mixed_env ''example.com'' None ''login'' 100) \<and>
   last (generate mixed_env ''example.com'' None ''login'' 100) = Complete ''Scan complete.'' \<and>
   fetch_snapshots failing_env ''example.com'' None 100 \<noteq> [] \<and>
   \<not> list_ex is_match_event (generate failing_env ''example.com'' None ''login'' 100) \<and>
   last (generate failing_env ''example.com'' None ''login'' 100) =
     Complete ''Scan finished. No matches found.''"
  using completion_message [of mixed_env "''example.com''" None 100 "''login''"]
    completion_message [of failing_env "''example.com''" None 100 "''login''"]
    mixed_example failing_example
  by (simp add: analyzing_event_def)

subsection \<open>C10: a script tag without a single string\<close>

lemma split_script_example:
  "string_of (Tag ''script'' [] [Str Script ''log'', Str Script ''in'']) = None"
  "string_of (Tag ''script'' [] []) = None"
  "find_all_script (cleanup page_split_script) =
     [Tag ''script'' [] [Str Script ''log'', Str Script ''in''], Tag ''script'' [] []]"
  "extract_data (\<lambda>html. Inr page_split_script) ''<html>'' ''login'' (JStr ''2020'') ''u'' = Inr []"
  by code_simp+

text \<open>
  Claim C10.  A script tag whose \<open>.string\<close> is \<open>None\<close> (no child, several children, or
  one child tag that has no string itself) adds nothing to the matches: wherever it
  stands among the script tags, the loop over the scripts returns what it returns
  without that tag, for every keyword, also when the texts of its children put
  together hold the keyword.
\<close>

theorem script_without_string:
  assumes "string_of script = None"
  shows "search_scripts escaped_keyword (before @ script # rest) ts url matches =
           search_scripts escaped_keyword (before @ rest) ts url matches \<and>
         script_matches keyword ts url script = []"
proof -
  have "search_scripts escaped_keyword (before @ script # rest) ts url matches =
           search_scripts escaped_keyword (before @ rest) ts url matches"
    using assms by (induction before arbitrary: matches) (auto split: option.splits sum.splits)
  with assms show ?thesis by (simp add: script_matches_def)
qed

theorem script_without_string_witness:
  "string_of (Tag ''script'' [] [Str Script ''log'', Str Script ''in'']) = None \<and>
   search_scripts (re_escape ''login'')
     ([] @ Tag ''script'' [] [Str Script ''log'', Str Script ''in''] # [Tag ''script'' [] []])
     (JStr ''2020'') ''u'' [] = Inr [] \<and>
   extract_data (\<lambda>html. Inr page_split_script) ''<html>'' ''login'' (JStr ''2020'') ''u'' = Inr []"
proof -
  have 1: "string_of (Tag ''script'' [] [Str Script ''log'', Str Script ''in'']) = None" by simp
  have 2: "string_of (Tag ''script'' [] []) = None" by simp
  from script_without_string [OF 1, of "re_escape ''login''" "[]" "[Tag ''script'' [] []]"
      "JStr ''2020''" "''u''" "[]" "''login''"]
  have "search_scripts (re_escape ''login'')
     ([] @ Tag ''script'' [] [Str Script ''log'', Str Script ''in''] # [Tag ''script'' [] []])
     (JStr ''2020'') ''u'' [] = Inr []"
    using 2 by simp
  with 1 split_script_example(4) show ?thesis by simp
qed

end
